theory Spec2Isabelle
  imports Complex_Main
begin

section \<open>Numeric model\<close>

text \<open>
  Array entries are floating-point numbers, of the default precision of \<^verbatim>\<open>jax.numpy\<close>
  (32 bits). They are modelled by the IEEE special values together with the finite
  values, and a finite value is a real number. The arithmetic on the special values
  follows IEEE 754. The exponential, the product and the quotient are limited to the
  range of the format: a result above the largest finite number \<open>fl_fmax\<close> is infinite,
  a result below the smallest normal number \<open>fl_fmin\<close> is flushed to zero, and a result
  between them is exact. Sums, differences and the other functions are exact on finite
  values: rounding is not modelled, nor is the signed zero.
\<close>

datatype fl = NaN | NInf | PInf | Fin real

datatype exn =
  ZeroDivisionError | IndexError | ValueError | TypeError | AttributeError string
  | NotImplementedError string

definition fl_fmax :: real where
  "fl_fmax = 2 ^ 128 - 2 ^ 104"

definition fl_fmin :: real where
  "fl_fmin = 1 / 2 ^ 126"

definition fl_range :: "real \<Rightarrow> fl" where
  "fl_range r =
     (if fl_fmax < r then PInf
      else if r < - fl_fmax then NInf
      else if \<bar>r\<bar> < fl_fmin then Fin 0
      else Fin r)"

fun isnan :: "fl \<Rightarrow> bool" where
  "isnan NaN = True"
| "isnan _ = False"

fun fl_neg :: "fl \<Rightarrow> fl" where
  "fl_neg NaN = NaN"
| "fl_neg NInf = PInf"
| "fl_neg PInf = NInf"
| "fl_neg (Fin a) = Fin (- a)"

fun fl_add :: "fl \<Rightarrow> fl \<Rightarrow> fl" where
  "fl_add (Fin a) (Fin b) = Fin (a + b)"
| "fl_add NaN _ = NaN"
| "fl_add _ NaN = NaN"
| "fl_add PInf NInf = NaN"
| "fl_add NInf PInf = NaN"
| "fl_add PInf _ = PInf"
| "fl_add _ PInf = PInf"
| "fl_add NInf _ = NInf"
| "fl_add _ NInf = NInf"

definition fl_sub :: "fl \<Rightarrow> fl \<Rightarrow> fl" where
  "fl_sub a b = fl_add a (fl_neg b)"

fun fl_mul :: "fl \<Rightarrow> fl \<Rightarrow> fl" where
  "fl_mul (Fin a) (Fin b) = fl_range (a * b)"
| "fl_mul NaN _ = NaN"
| "fl_mul _ NaN = NaN"
| "fl_mul PInf (Fin b) = (if b = 0 then NaN else if 0 < b then PInf else NInf)"
| "fl_mul NInf (Fin b) = (if b = 0 then NaN else if 0 < b then NInf else PInf)"
| "fl_mul (Fin a) PInf = (if a = 0 then NaN else if 0 < a then PInf else NInf)"
| "fl_mul (Fin a) NInf = (if a = 0 then NaN else if 0 < a then NInf else PInf)"
| "fl_mul PInf PInf = PInf"
| "fl_mul PInf NInf = NInf"
| "fl_mul NInf PInf = NInf"
| "fl_mul NInf NInf = PInf"

fun fl_div :: "fl \<Rightarrow> fl \<Rightarrow> fl" where
  "fl_div (Fin a) (Fin b) =
     (if b = 0 then (if a = 0 then NaN else if 0 < a then PInf else NInf)
      else fl_range (a / b))"
| "fl_div NaN _ = NaN"
| "fl_div _ NaN = NaN"
| "fl_div (Fin a) _ = Fin 0"
| "fl_div PInf (Fin b) = (if 0 \<le> b then PInf else NInf)"
| "fl_div NInf (Fin b) = (if 0 \<le> b then NInf else PInf)"
| "fl_div _ _ = NaN"

fun fl_exp :: "fl \<Rightarrow> fl" where
  "fl_exp NaN = NaN"
| "fl_exp NInf = Fin 0"
| "fl_exp PInf = PInf"
| "fl_exp (Fin a) = fl_range (exp a)"

fun fl_log :: "fl \<Rightarrow> fl" where
  "fl_log NaN = NaN"
| "fl_log NInf = NaN"
| "fl_log PInf = PInf"
| "fl_log (Fin a) = (if a < 0 then NaN else if a = 0 then NInf else Fin (ln a))"

fun fl_sqrt :: "fl \<Rightarrow> fl" where
  "fl_sqrt NaN = NaN"
| "fl_sqrt NInf = NaN"
| "fl_sqrt PInf = PInf"
| "fl_sqrt (Fin a) = (if a < 0 then NaN else Fin (sqrt a))"

fun fl_tanh :: "fl \<Rightarrow> fl" where
  "fl_tanh NaN = NaN"
| "fl_tanh NInf = Fin (- 1)"
| "fl_tanh PInf = Fin 1"
| "fl_tanh (Fin a) = Fin (tanh a)"

text \<open>\<^verbatim>\<open>jax.nn.softplus(x)\<close> is \<^verbatim>\<open>logaddexp(x, 0)\<close>, that is \<open>log (1 + exp x)\<close>.\<close>

fun softplus :: "fl \<Rightarrow> fl" where
  "softplus NaN = NaN"
| "softplus NInf = Fin 0"
| "softplus PInf = PInf"
| "softplus (Fin a) = Fin (ln (1 + exp a))"

text \<open>The maximum of \<^verbatim>\<open>jnp.amax\<close> propagates not-a-number.\<close>

fun fl_max :: "fl \<Rightarrow> fl \<Rightarrow> fl" where
  "fl_max (Fin a) (Fin b) = Fin (max a b)"
| "fl_max NaN _ = NaN"
| "fl_max _ NaN = NaN"
| "fl_max PInf _ = PInf"
| "fl_max _ PInf = PInf"
| "fl_max NInf b = b"
| "fl_max a NInf = a"

definition fl_sum :: "fl list \<Rightarrow> fl" where
  "fl_sum xs = foldl fl_add (Fin 0) xs"

section \<open>Arrays\<close>

text \<open>
  A rank-1 array is a list, a rank-2 array the list of its rows, a rank-3 array the list
  of its leading-axis slices.
\<close>

type_synonym vec = "fl list"
type_synonym matrix = "fl list list"
type_synonym tensor = "fl list list list"

definition zeros :: "nat \<Rightarrow> nat \<Rightarrow> matrix" where
  "zeros r c = replicate r (replicate c (Fin 0))"

definition ones :: "nat \<times> nat \<Rightarrow> matrix" where
  "ones s = replicate (fst s) (replicate (snd s) (Fin 1))"

definition mat_map :: "(fl \<Rightarrow> fl) \<Rightarrow> matrix \<Rightarrow> matrix" where
  "mat_map f A = map (map f) A"

definition mat_map2 :: "(fl \<Rightarrow> fl \<Rightarrow> fl) \<Rightarrow> matrix \<Rightarrow> matrix \<Rightarrow> matrix" where
  "mat_map2 f A B = map2 (map2 f) A B"

text \<open>
  Broadcasting of a column \<open>(n, 1)\<close> against a matrix \<open>(n, m)\<close>, in either order, and of
  a row \<open>(1, m)\<close> against a matrix \<open>(n, m)\<close>.
\<close>

definition col_mat :: "(fl \<Rightarrow> fl \<Rightarrow> fl) \<Rightarrow> matrix \<Rightarrow> matrix \<Rightarrow> matrix" where
  "col_mat f S A = map2 (\<lambda>s row. map (f (hd s)) row) S A"

definition mat_col :: "(fl \<Rightarrow> fl \<Rightarrow> fl) \<Rightarrow> matrix \<Rightarrow> matrix \<Rightarrow> matrix" where
  "mat_col f A S = map2 (\<lambda>row s. map (\<lambda>a. f a (hd s)) row) A S"

definition mat_row :: "(fl \<Rightarrow> fl \<Rightarrow> fl) \<Rightarrow> matrix \<Rightarrow> vec \<Rightarrow> matrix" where
  "mat_row f A r = map (\<lambda>row. map2 f row r) A"

text \<open>Column \<open>j\<close> of a matrix with \<open>m\<close> columns.\<close>

definition columns :: "nat \<Rightarrow> matrix \<Rightarrow> matrix" where
  "columns m A = map (\<lambda>j. map (\<lambda>row. row ! j) A) [0..<m]"

text \<open>
  \<^verbatim>\<open>jnp.amax\<close> along an axis: a reduction with no identity, which raises on an axis of
  size zero.
\<close>

fun amax :: "vec \<Rightarrow> exn + fl" where
  "amax [] = Inl ValueError"
| "amax (v # vs) = Inr (foldl fl_max v vs)"

fun sequence :: "(exn + 'a) list \<Rightarrow> exn + 'a list" where
  "sequence [] = Inr []"
| "sequence (r # rs) =
     (case r of Inl e \<Rightarrow> Inl e
      | Inr a \<Rightarrow> (case sequence rs of Inl e \<Rightarrow> Inl e | Inr as \<Rightarrow> Inr (a # as)))"

definition matmul :: "matrix \<Rightarrow> matrix \<Rightarrow> nat \<Rightarrow> matrix" where
  "matmul A B m = map (\<lambda>row. map (\<lambda>col. fl_sum (map2 fl_mul row col)) (columns m B)) A"

definition matvec :: "matrix \<Rightarrow> vec \<Rightarrow> vec" where
  "matvec A x = map (\<lambda>row. fl_sum (map2 fl_mul row x)) A"

text \<open>Row-major reshape of a flat list to \<open>(n, d)\<close> and to \<open>(n, r, c)\<close>.\<close>

definition reshape2 :: "nat \<Rightarrow> nat \<Rightarrow> 'a list \<Rightarrow> 'a list list" where
  "reshape2 n d xs = map (\<lambda>b. take d (drop (b * d) xs)) [0..<n]"

definition reshape3 :: "nat \<Rightarrow> nat \<Rightarrow> nat \<Rightarrow> 'a list \<Rightarrow> 'a list list list" where
  "reshape3 n r c xs = map (\<lambda>b. reshape2 r c (take (r * c) (drop (b * (r * c)) xs))) [0..<n]"

section \<open>Block masks\<close>

text \<open>
  \<^verbatim>\<open>jax.scipy.linalg.block_diag\<close>: the accumulator is padded with zeros on the right, the
  next block on the left, and the two are stacked. A block is given with its number of
  columns; \<open>w\<close> is the width of the accumulator. With no block the result has shape
  \<open>(1, 0)\<close>.
\<close>

fun block_diag_from :: "nat \<Rightarrow> matrix \<Rightarrow> (nat \<times> matrix) list \<Rightarrow> matrix" where
  "block_diag_from w acc [] = acc"
| "block_diag_from w acc ((c, a) # rest) =
     block_diag_from (w + c)
       (map (\<lambda>row. row @ replicate c (Fin 0)) acc @ map (\<lambda>row. replicate w (Fin 0) @ row) a)
       rest"

fun block_diag :: "(nat \<times> matrix) list \<Rightarrow> matrix" where
  "block_diag [] = [[]]"
| "block_diag ((c, a) # rest) = block_diag_from c a rest"

definition b_diag_mask :: "nat \<times> nat \<Rightarrow> nat \<Rightarrow> matrix" where
  "b_diag_mask block_shape n_blocks =
     block_diag (map (\<lambda>_. (snd block_shape, ones block_shape)) [0..<n_blocks])"

text \<open>
  \<^verbatim>\<open>mask.at[r0:, c0:c1].set(1)\<close>: the rows from \<open>r0\<close> on, the columns from \<open>c0\<close> to
  \<open>c1\<close> (excluded); a slice is clipped to the array.
\<close>

definition set_slice :: "nat \<Rightarrow> nat \<Rightarrow> nat \<Rightarrow> matrix \<Rightarrow> matrix" where
  "set_slice r0 c0 c1 msk =
     map (\<lambda>(i, row).
       if r0 \<le> i then map (\<lambda>(j, v). if c0 \<le> j \<and> j < c1 then Fin 1 else v) (enumerate 0 row)
       else row) (enumerate 0 msk)"

definition b_tril_mask :: "nat \<times> nat \<Rightarrow> nat \<Rightarrow> matrix" where
  "b_tril_mask block_shape n_blocks =
     fold (\<lambda>i msk.
        set_slice ((i + 1) * fst block_shape) (i * snd block_shape)
          ((i + 1) * snd block_shape) msk)
       [0..<n_blocks]
       (zeros (fst block_shape * n_blocks) (snd block_shape * n_blocks))"

text \<open>\<^verbatim>\<open>jnp.where(mask)\<close>: the positions of the non-zero entries, in row-major order.\<close>

definition where_idxs :: "matrix \<Rightarrow> (nat \<times> nat) list" where
  "where_idxs msk =
     concat (map (\<lambda>(i, row). map (\<lambda>(j, v). (i, j)) (filter (\<lambda>(j, v). v \<noteq> Fin 0) (enumerate 0 row)))
       (enumerate 0 msk))"

section \<open>The masked linear block layer\<close>

text \<open>
  The fields \<^verbatim>\<open>_b_diag_mask\<close>, \<^verbatim>\<open>_b_diag_mask_idxs\<close> and \<^verbatim>\<open>_b_tril_mask\<close> are
  \<open>p_b_diag_mask\<close>, \<open>p_b_diag_mask_idxs\<close> and \<open>p_b_tril_mask\<close>. The properties of the same
  names without the underscore apply \<^verbatim>\<open>stop_gradient\<close>, which is the identity on values.
\<close>

record BlockAutoregressiveLinear =
  n_blocks :: nat
  block_shape :: "nat \<times> nat"
  W :: matrix
  bias :: vec
  W_log_scale :: matrix
  in_features :: nat
  out_features :: nat
  p_b_diag_mask :: matrix
  p_b_diag_mask_idxs :: "(nat \<times> nat) list"
  p_b_tril_mask :: matrix

definition stop_gradient :: "'a \<Rightarrow> 'a" where
  "stop_gradient a = a"

definition diag_mask :: "BlockAutoregressiveLinear \<Rightarrow> matrix" where
  "diag_mask self = stop_gradient (p_b_diag_mask self)"

definition diag_mask_idxs :: "BlockAutoregressiveLinear \<Rightarrow> (nat \<times> nat) list" where
  "diag_mask_idxs self = stop_gradient (p_b_diag_mask_idxs self)"

definition tril_mask :: "BlockAutoregressiveLinear \<Rightarrow> matrix" where
  "tril_mask self = stop_gradient (p_b_tril_mask self)"

text \<open>
  The random capability is a parameter: \<open>rng_split key n\<close> are the \<open>n\<close> keys of
  \<^verbatim>\<open>random.split(key, n)\<close>, \<open>rng_init\<close> is the weight initialiser (Glorot uniform by
  default), \<open>rng_uniform\<close> draws a matrix of the given shape uniformly from \<open>[0, 1)\<close>.
\<close>

record 'k rng =
  rng_split :: "'k \<Rightarrow> nat \<Rightarrow> 'k list"
  rng_init :: "'k \<Rightarrow> nat \<times> nat \<Rightarrow> matrix"
  rng_uniform :: "'k \<Rightarrow> nat \<times> nat \<Rightarrow> matrix"

text \<open>
  The constructor. \<^verbatim>\<open>*w_key, bias_key, scale_key = random.split(key, n_blocks + 2)\<close>
  raises when there are fewer than two keys to unpack; it leaves \<open>w_key\<close> empty when
  \<open>n_blocks = 0\<close>, and \<^verbatim>\<open>w_key[0]\<close> raises then. The bias is a rank-1 array, drawn
  here as the single row of a \<open>(1, out_features)\<close> matrix.
\<close>

definition BlockAutoregressiveLinear_init ::
  "'k rng \<Rightarrow> 'k \<Rightarrow> nat \<Rightarrow> nat \<times> nat \<Rightarrow> exn + BlockAutoregressiveLinear" where
  "BlockAutoregressiveLinear_init g key n bs =
     (let dm = b_diag_mask bs n;
          idxs = where_idxs dm;
          tm = b_tril_mask bs n;
          inf = snd bs * n;
          outf = fst bs * n;
          keys = rng_split g key (n + 2);
          w_key = butlast (butlast keys);
          bias_key = last (butlast keys);
          scale_key = last keys
      in if length keys < 2 then Inl ValueError
         else case w_key of
           [] \<Rightarrow> Inl IndexError
         | k0 # _ \<Rightarrow>
             Inr \<lparr> n_blocks = n, block_shape = bs,
                   W = mat_map2 fl_mul (rng_init g k0 (outf, inf))
                         (mat_map2 fl_add (stop_gradient tm) (stop_gradient dm)),
                   bias = map (\<lambda>u. fl_mul (fl_sub u (Fin 0.5))
                                  (fl_div (Fin 2) (fl_sqrt (Fin (real outf)))))
                            (hd (rng_uniform g bias_key (1, outf))),
                   W_log_scale = mat_map fl_log (rng_uniform g scale_key (outf, 1)),
                   in_features = inf, out_features = outf,
                   p_b_diag_mask = dm, p_b_diag_mask_idxs = idxs, p_b_tril_mask = tm \<rparr>)"

text \<open>\<^verbatim>\<open>jnp.linalg.norm(W, axis=-1, keepdims=True)\<close>: the Euclidean norm of each row.\<close>

definition row_norms :: "matrix \<Rightarrow> matrix" where
  "row_norms A = map (\<lambda>row. [fl_sqrt (fl_sum (map (\<lambda>v. fl_mul v v) row))]) A"

definition get_normalised_weights :: "BlockAutoregressiveLinear \<Rightarrow> matrix" where
  "get_normalised_weights self =
     (let W1 = mat_map2 fl_add
                 (mat_map2 fl_mul (mat_map fl_exp (W self)) (diag_mask self))
                 (mat_map2 fl_mul (W self) (tril_mask self));
          W_norms = row_norms W1
      in mat_col fl_div (col_mat fl_mul (mat_map fl_exp (W_log_scale self)) W1) W_norms)"

text \<open>
  The call of a layer. \<^verbatim>\<open>W @ x\<close> raises when the length of \<open>x\<close> is not the number of
  columns of \<open>W\<close>.
\<close>

definition BlockAutoregressiveLinear_call ::
  "BlockAutoregressiveLinear \<Rightarrow> vec \<Rightarrow> exn + vec \<times> tensor" where
  "BlockAutoregressiveLinear_call self x =
     (let Wn = get_normalised_weights self
      in if length x \<noteq> in_features self then Inl TypeError
         else
           let y = map2 fl_add (matvec Wn x) (bias self);
               jac_3d = reshape3 (n_blocks self) (fst (block_shape self)) (snd (block_shape self))
                          (map (\<lambda>(i, j). Wn ! i ! j) (diag_mask_idxs self))
           in Inr (y, map (mat_map fl_log) jac_3d))"

section \<open>The log-domain matrix product\<close>

text \<open>
  \<open>x\<close> is \<open>(n, k)\<close> and \<open>y\<close> is \<open>(k, m)\<close>. \<open>x_shift\<close> keeps its reduced axis (a column),
  \<open>y_shift\<close> is the row of the column maxima. The reduction raises when \<open>k = 0\<close>, the
  product when the rows of \<open>x\<close> do not have the length \<open>k\<close>.
\<close>

definition logmatmulexp :: "matrix \<Rightarrow> matrix \<Rightarrow> exn + matrix" where
  "logmatmulexp x y =
     (case sequence (map amax x) of
        Inl e \<Rightarrow> Inl e
      | Inr xs \<Rightarrow>
          (let x_shift = map (\<lambda>s. [s]) (stop_gradient xs);
               m = (case y of [] \<Rightarrow> 0 | r # _ \<Rightarrow> length r)
           in if y = [] then Inl ValueError
              else case sequence (map amax (columns m y)) of
                Inl e \<Rightarrow> Inl e
              | Inr ys \<Rightarrow>
                  (let y_shift = stop_gradient ys
                   in if \<exists>row \<in> set x. length row \<noteq> length y then Inl TypeError
                      else
                        let xy = mat_map fl_log
                                   (matmul (mat_map fl_exp (mat_col fl_sub x x_shift))
                                      (mat_map fl_exp (mat_row fl_sub y y_shift)) m)
                        in Inr (mat_row fl_add (mat_col fl_add xy x_shift) y_shift))))"

text \<open>
  On rank-3 arrays the reductions and the product act on every leading-axis slice; a
  leading axis of size one is broadcast, other sizes must agree.
\<close>

definition logmatmulexp3 :: "tensor \<Rightarrow> tensor \<Rightarrow> exn + tensor" where
  "logmatmulexp3 x y =
     (if length x = length y then sequence (map2 logmatmulexp x y)
      else if length x = 1 then sequence (map (logmatmulexp (hd x)) y)
      else if length y = 1 then sequence (map (\<lambda>a. logmatmulexp a (hd y)) x)
      else Inl ValueError)"

section \<open>The activation\<close>

text \<open>\<^verbatim>\<open>log_det.at[:, arange(d), arange(d)].set(vals)\<close> on one slice.\<close>

definition set_diag :: "matrix \<Rightarrow> vec \<Rightarrow> matrix" where
  "set_diag A v = map (\<lambda>(k, row). if k < length v then row[k := v ! k] else row) (enumerate 0 A)"

definition TanhBNAF_call :: "nat \<Rightarrow> vec \<Rightarrow> exn + vec \<times> tensor" where
  "TanhBNAF_call n x =
     (if n = 0 then Inl ZeroDivisionError
      else
        let d = length x div n;
            log_det_vals =
              map (\<lambda>v. fl_mul (Fin (- 2))
                     (fl_sub (fl_add v (softplus (fl_mul (Fin (- 2)) v))) (fl_log (Fin 2)))) x;
            log_det = replicate n (replicate d (replicate d NInf))
        in if length x \<noteq> n * d then Inl TypeError
           else Inr (map fl_tanh x, map2 set_diag log_det (reshape2 n d log_det_vals)))"

section \<open>The block autoregressive network\<close>

text \<open>
  A layer of the network is a masked linear block layer or the activation
  \<^verbatim>\<open>_TanhBNAF(n_blocks)\<close>; \<^verbatim>\<open>layer(y)\<close> is \<open>call_layer\<close>.
\<close>

datatype layer = Linear BlockAutoregressiveLinear | Activation nat

fun call_layer :: "layer \<Rightarrow> vec \<Rightarrow> exn + vec \<times> tensor" where
  "call_layer (Linear l) y = BlockAutoregressiveLinear_call l y"
| "call_layer (Activation n) y = TanhBNAF_call n y"

record BlockAutoregressiveNetwork =
  n_layers :: int
  layers :: "layer list"

text \<open>
  The loop of the constructor: \<^verbatim>\<open>key, subkey = random.split(key)\<close>, then the layer and
  the activation are appended. Unpacking raises when the split does not give two keys.
\<close>

fun build_layers ::
  "'k rng \<Rightarrow> 'k \<Rightarrow> nat \<Rightarrow> (nat \<times> nat) list \<Rightarrow> layer list \<Rightarrow> exn + layer list" where
  "build_layers g key d [] acc = Inr acc"
| "build_layers g key d (bs # sizes) acc =
     (case rng_split g key 2 of
        [key', subkey] \<Rightarrow>
          (case BlockAutoregressiveLinear_init g subkey d bs of
             Inl e \<Rightarrow> Inl e
           | Inr l \<Rightarrow> build_layers g key' d sizes (acc @ [Linear l, Activation d]))
      | _ \<Rightarrow> Inl ValueError)"

text \<open>
  The constructor, with the default activation. A list repeated a negative number of
  times is empty, as for \<open>replicate\<close> and \<open>nat\<close>. \<^verbatim>\<open>layers[:-1]\<close> drops the last
  activation.
\<close>

definition BlockAutoregressiveNetwork_init ::
  "'k rng \<Rightarrow> 'k \<Rightarrow> nat \<Rightarrow> int \<Rightarrow> nat \<times> nat \<Rightarrow> exn + BlockAutoregressiveNetwork" where
  "BlockAutoregressiveNetwork_init g key d nl block_size =
     (let block_sizes = [(fst block_size, 1)] @ replicate (nat (nl - 2)) block_size
                          @ [(1, snd block_size)]
      in case build_layers g key d block_sizes [] of
           Inl e \<Rightarrow> Inl e
         | Inr ls \<Rightarrow> Inr \<lparr> n_layers = nl, layers = butlast ls \<rparr>)"

fun transform_loop :: "layer list \<Rightarrow> vec \<Rightarrow> exn + vec" where
  "transform_loop [] y = Inr y"
| "transform_loop (l # ls) y =
     (case call_layer l y of Inl e \<Rightarrow> Inl e | Inr (y', ld) \<Rightarrow> transform_loop ls y')"

definition transform :: "BlockAutoregressiveNetwork \<Rightarrow> vec \<Rightarrow> exn + vec" where
  "transform self x = transform_loop (layers self) x"

text \<open>The first loop of \<^verbatim>\<open>transform_and_log_abs_det_jacobian\<close>: \<open>acc\<close> is \<^verbatim>\<open>log_det_3ds\<close>.\<close>

fun collect_loop :: "layer list \<Rightarrow> vec \<Rightarrow> tensor list \<Rightarrow> exn + vec \<times> tensor list" where
  "collect_loop [] y acc = Inr (y, acc)"
| "collect_loop (l # ls) y acc =
     (case call_layer l y of
        Inl e \<Rightarrow> Inl e
      | Inr (y', log_det_3d) \<Rightarrow> collect_loop ls y' (acc @ [log_det_3d]))"

text \<open>The second loop: \<^verbatim>\<open>logdet = logmatmulexp(logdet, ld)\<close> for each \<open>ld\<close> in turn.\<close>

fun logdet_loop :: "tensor list \<Rightarrow> tensor \<Rightarrow> exn + tensor" where
  "logdet_loop [] logdet = Inr logdet"
| "logdet_loop (ld # lds) logdet =
     (case logmatmulexp3 logdet ld of Inl e \<Rightarrow> Inl e | Inr t \<Rightarrow> logdet_loop lds t)"

definition tensor_sum :: "tensor \<Rightarrow> fl" where
  "tensor_sum t = fl_sum (concat (concat t))"

text \<open>
  \<^verbatim>\<open>log_det_3ds[-1]\<close> raises on the empty list. The argument \<open>condition\<close> of
  \<open>transform\<close> and of \<open>transform_and_log_abs_det_jacobian\<close> is not used by them and is
  left out.
\<close>

definition transform_and_log_abs_det_jacobian ::
  "BlockAutoregressiveNetwork \<Rightarrow> vec \<Rightarrow> exn + vec \<times> fl" where
  "transform_and_log_abs_det_jacobian self x =
     (case collect_loop (layers self) x [] of
        Inl e \<Rightarrow> Inl e
      | Inr (y, log_det_3ds) \<Rightarrow>
          if log_det_3ds = [] then Inl IndexError
          else
            (case logdet_loop (rev (butlast log_det_3ds)) (last log_det_3ds) of
               Inl e \<Rightarrow> Inl e
             | Inr logdet \<Rightarrow> Inr (y, tensor_sum logdet)))"

text \<open>
  \<^verbatim>\<open>inverse(*args, **kwargs)\<close> has the statement
  \<^verbatim>\<open>return NotImplementedError(...)\<close>: the result of a call is either a raised
  exception (\<open>Inl\<close>) or a returned value (\<open>Inr\<close>), and a returned value may be an
  exception object. The message is kept without its surrounding white space.
\<close>

datatype pyvalue = ExceptionObject exn | ArrayValue vec

definition inverse_bnaf :: "'args \<Rightarrow> exn + pyvalue" where
  "inverse_bnaf args =
     Inr (ExceptionObject
       (NotImplementedError ''This transform would require numerical methods for inversion..''))"

section \<open>Reference definitions over the reals\<close>



text \<open>
  The logarithm of the derivative of \<open>tanh\<close> at an array entry, \<open>log (1 - tanh\<^sup>2)\<close>, as
  a floating-point value: at a finite entry the real value, limited to the range of the
  format; at an infinite entry \<open>tanh\<close> is \<open>1\<close> or \<open>-1\<close> and the logarithm of zero is
  \<open>-inf\<close>.
\<close>

fun log_dtanh :: "fl \<Rightarrow> fl" where
  "log_dtanh NaN = NaN"
| "log_dtanh NInf = NInf"
| "log_dtanh PInf = NInf"
| "log_dtanh (Fin a) = fl_range (ln (1 - (tanh a)\<^sup>2))"



text \<open>An array of shape \<open>(r, c)\<close>: \<open>r\<close> rows of length \<open>c\<close>.\<close>

definition shaped :: "nat \<Rightarrow> nat \<Rightarrow> 'a list list \<Rightarrow> bool" where
  "shaped r c A \<longleftrightarrow> length A = r \<and> (\<forall>row\<in>set A. length row = c)"

text \<open>
  The block-diagonal pattern on the first \<open>t\<close> blocks: the invariant of the accumulator
  of \<open>block_diag_from\<close>.
\<close>

definition diag_inv :: "nat \<Rightarrow> nat \<Rightarrow> nat \<Rightarrow> matrix \<Rightarrow> bool" where
  "diag_inv r c t acc \<longleftrightarrow> shaped (t * r) (t * c) acc \<and>
     (\<forall>i<t * r. \<forall>j<t * c. acc ! i ! j = (if i div r = j div c then Fin 1 else Fin 0))"

text \<open>An array all of whose entries are finite.\<close>

fun is_fin :: "fl \<Rightarrow> bool" where
  "is_fin (Fin a) = True"
| "is_fin _ = False"

definition finite_mat :: "matrix \<Rightarrow> bool" where
  "finite_mat A \<longleftrightarrow> (\<forall>row\<in>set A. \<forall>v\<in>set row. is_fin v)"

fun the_fin :: "fl \<Rightarrow> real" where
  "the_fin (Fin a) = a"
| "the_fin _ = 0"

text \<open>
  A layer of two blocks of shape \<open>(1, 1)\<close> whose raw weight is not zero at the masked
  position \<open>(0, 1)\<close>.
\<close>

definition example_layer :: BlockAutoregressiveLinear where
  "example_layer =
     \<lparr> n_blocks = 2, block_shape = (1, 1),
       W = [[Fin 0, Fin 5], [Fin 1, Fin 0]],
       bias = [Fin 0, Fin 0],
       W_log_scale = [[Fin 0], [Fin 0]],
       in_features = 2, out_features = 2,
       p_b_diag_mask = b_diag_mask (1, 1) 2,
       p_b_diag_mask_idxs = where_idxs (b_diag_mask (1, 1) 2),
       p_b_tril_mask = b_tril_mask (1, 1) 2 \<rparr>"

text \<open>
  Two layers of the same shape. In the first the raw weight at the masked position
  \<open>(0, 1)\<close> is \<open>200\<close>, whose exponential is above the largest number of the format. In
  the second the raw weight at the diagonal position \<open>(0, 0)\<close> is \<open>-70\<close>: its exponential
  is a normal number whose square is below the smallest one.
\<close>

definition overflow_layer :: BlockAutoregressiveLinear where
  "overflow_layer =
     \<lparr> n_blocks = 2, block_shape = (1, 1),
       W = [[Fin 0, Fin 200], [Fin 1, Fin 0]],
       bias = [Fin 0, Fin 0],
       W_log_scale = [[Fin 0], [Fin 0]],
       in_features = 2, out_features = 2,
       p_b_diag_mask = b_diag_mask (1, 1) 2,
       p_b_diag_mask_idxs = where_idxs (b_diag_mask (1, 1) 2),
       p_b_tril_mask = b_tril_mask (1, 1) 2 \<rparr>"

definition underflow_layer :: BlockAutoregressiveLinear where
  "underflow_layer =
     \<lparr> n_blocks = 2, block_shape = (1, 1),
       W = [[Fin (- 70), Fin 0], [Fin 1, Fin 0]],
       bias = [Fin 0, Fin 0],
       W_log_scale = [[Fin 0], [Fin 0]],
       in_features = 2, out_features = 2,
       p_b_diag_mask = b_diag_mask (1, 1) 2,
       p_b_diag_mask_idxs = where_idxs (b_diag_mask (1, 1) 2),
       p_b_tril_mask = b_tril_mask (1, 1) 2 \<rparr>"

text \<open>A value that is not negative (a finite number at least zero, or \<open>inf\<close>), and a positive one.\<close>

fun fl_nonneg :: "fl \<Rightarrow> bool" where
  "fl_nonneg (Fin a) = (0 \<le> a)"
| "fl_nonneg PInf = True"
| "fl_nonneg _ = False"

fun fl_positive :: "fl \<Rightarrow> bool" where
  "fl_positive (Fin a) = (0 < a)"
| "fl_positive PInf = True"
| "fl_positive _ = False"

text \<open>
  The steps of the log-determinant as the specification words them: the layers are passed
  in order and their tensors collected in forward order; the tensors are folded from
  right to left with the log-domain product, starting from the last one.
\<close>

fun pass_layers :: "layer list \<Rightarrow> vec \<Rightarrow> exn + vec \<times> tensor list" where
  "pass_layers [] y = Inr (y, [])"
| "pass_layers (l # ls) y =
     (case call_layer l y of
        Inl e \<Rightarrow> Inl e
      | Inr (y', ld) \<Rightarrow>
          (case pass_layers ls y' of Inl e \<Rightarrow> Inl e | Inr (z, lds) \<Rightarrow> Inr (z, ld # lds)))"

definition fold_right_to_left :: "tensor list \<Rightarrow> exn + tensor" where
  "fold_right_to_left lds =
     foldr (\<lambda>ld acc. case acc of Inl e \<Rightarrow> Inl e | Inr a \<Rightarrow> logmatmulexp3 a ld)
       (butlast lds) (Inr (last lds))"

text \<open>
  A network of dimension one: two linear layers of one block of shape \<open>(1, 1)\<close> with the
  activation between them.
\<close>

definition example_unit_layer :: BlockAutoregressiveLinear where
  "example_unit_layer =
     \<lparr> n_blocks = 1, block_shape = (1, 1),
       W = [[Fin 0]], bias = [Fin 0], W_log_scale = [[Fin 0]],
       in_features = 1, out_features = 1,
       p_b_diag_mask = b_diag_mask (1, 1) 1,
       p_b_diag_mask_idxs = where_idxs (b_diag_mask (1, 1) 1),
       p_b_tril_mask = b_tril_mask (1, 1) 1 \<rparr>"

definition example_network :: BlockAutoregressiveNetwork where
  "example_network =
     \<lparr> n_layers = 2,
       layers = [Linear example_unit_layer, Activation 1, Linear example_unit_layer] \<rparr>"

text \<open>
  A deterministic random capability: keys are numbers, a split counts on from the key,
  the initial weights are zero and the uniform draws are all one half.
\<close>

definition example_rng :: "nat rng" where
  "example_rng =
     \<lparr> rng_split = (\<lambda>k n. map (\<lambda>i. k + i + 1) [0..<n]),
       rng_init = (\<lambda>k s. replicate (fst s) (replicate (snd s) (Fin 0))),
       rng_uniform = (\<lambda>k s. replicate (fst s) (replicate (snd s) (Fin (1 / 2)))) \<rparr>"

section \<open>Bijections\<close>

text \<open>
  A bijection other than a chain is given by its four methods, which may raise: the
  interface of \<open>AbstractBijection\<close> as the distributions call it. \<open>'x\<close> is the type of
  the arrays of the sample space and \<open>'c\<close> that of the conditioning arrays.
\<close>

record ('x, 'c) bijection_methods =
  bj_transform :: "'x \<Rightarrow> 'c option \<Rightarrow> exn + 'x"
  bj_inverse :: "'x \<Rightarrow> 'c option \<Rightarrow> exn + 'x"
  bj_transform_and_log_det :: "'x \<Rightarrow> 'c option \<Rightarrow> exn + 'x \<times> fl"
  bj_inverse_and_log_det :: "'x \<Rightarrow> 'c option \<Rightarrow> exn + 'x \<times> fl"

datatype ('x, 'c) bijection =
  Leaf "('x, 'c) bijection_methods"
  | Chain "('x, 'c) bijection list"

text \<open>
  Modelled from the spec: the class \<^verbatim>\<open>Chain\<close> and its method \<^verbatim>\<open>merge_chains\<close>, of
  the module \<^verbatim>\<open>flowjax.bijections\<close>. A chain is an ordered sequence of bijections; \<open>transform\<close>
  applies each in sequence; \<open>transform_and_log_det\<close> applies each and sums the
  log-determinants; \<open>inverse_and_log_det\<close> applies the sequence in reverse using each
  bijection's inverse and sums the log-determinants; \<open>merge_chains\<close> splices nested
  chains into one flat sequence. The sums start from zero.
\<close>

fun transform_bij :: "('x, 'c) bijection \<Rightarrow> 'x \<Rightarrow> 'c option \<Rightarrow> exn + 'x"
  and transform_chain :: "('x, 'c) bijection list \<Rightarrow> 'x \<Rightarrow> 'c option \<Rightarrow> exn + 'x" where
  "transform_bij (Leaf b) x c = bj_transform b x c"
| "transform_bij (Chain bs) x c = transform_chain bs x c"
| "transform_chain [] x c = Inr x"
| "transform_chain (b # bs) x c =
     (case transform_bij b x c of Inl e \<Rightarrow> Inl e | Inr y \<Rightarrow> transform_chain bs y c)"

fun transform_and_log_det :: "('x, 'c) bijection \<Rightarrow> 'x \<Rightarrow> 'c option \<Rightarrow> exn + 'x \<times> fl"
  and transform_and_log_det_chain ::
    "('x, 'c) bijection list \<Rightarrow> 'x \<Rightarrow> 'c option \<Rightarrow> fl \<Rightarrow> exn + 'x \<times> fl" where
  "transform_and_log_det (Leaf b) x c = bj_transform_and_log_det b x c"
| "transform_and_log_det (Chain bs) x c = transform_and_log_det_chain bs x c (Fin 0)"
| "transform_and_log_det_chain [] x c log_det = Inr (x, log_det)"
| "transform_and_log_det_chain (b # bs) x c log_det =
     (case transform_and_log_det b x c of
        Inl e \<Rightarrow> Inl e
      | Inr (y, ld) \<Rightarrow> transform_and_log_det_chain bs y c (fl_add log_det ld))"

text \<open>
  The inverse of a chain starts with its last bijection: the rest of the list is inverted
  before its head.
\<close>

fun inverse_and_log_det :: "('x, 'c) bijection \<Rightarrow> 'x \<Rightarrow> 'c option \<Rightarrow> exn + 'x \<times> fl"
  and inverse_and_log_det_chain ::
    "('x, 'c) bijection list \<Rightarrow> 'x \<Rightarrow> 'c option \<Rightarrow> exn + 'x \<times> fl" where
  "inverse_and_log_det (Leaf b) y c = bj_inverse_and_log_det b y c"
| "inverse_and_log_det (Chain bs) y c = inverse_and_log_det_chain bs y c"
| "inverse_and_log_det_chain [] y c = Inr (y, Fin 0)"
| "inverse_and_log_det_chain (b # bs) y c =
     (case inverse_and_log_det_chain bs y c of
        Inl e \<Rightarrow> Inl e
      | Inr (z, log_det) \<Rightarrow>
          (case inverse_and_log_det b z c of
             Inl e \<Rightarrow> Inl e
           | Inr (x, ld) \<Rightarrow> Inr (x, fl_add log_det ld)))"

fun flatten :: "('x, 'c) bijection \<Rightarrow> ('x, 'c) bijection list" where
  "flatten (Leaf b) = [Leaf b]"
| "flatten (Chain bs) = concat (map flatten bs)"

fun merge_chains :: "('x, 'c) bijection \<Rightarrow> ('x, 'c) bijection" where
  "merge_chains (Leaf b) = Leaf b"
| "merge_chains (Chain bs) = Chain (concat (map flatten bs))"

section \<open>Distributions\<close>

text \<open>
  A distribution that is not a transformed one is taken by its shape and its two abstract
  methods \<^verbatim>\<open>_log_prob\<close> and \<^verbatim>\<open>_sample\<close>; \<open>'k\<close> is the type of the random keys. A
  transformed distribution has a base distribution and a bijection.
\<close>

record ('x, 'k, 'c) distribution_methods =
  dm_shape :: "nat list"
  dm_log_prob :: "'x \<Rightarrow> 'c option \<Rightarrow> exn + fl"
  dm_sample :: "'k \<Rightarrow> 'c option \<Rightarrow> exn + 'x"

datatype ('x, 'k, 'c) distribution =
  Base "('x, 'k, 'c) distribution_methods"
  | Transformed "('x, 'k, 'c) distribution" "('x, 'c) bijection"

text \<open>
  The methods \<^verbatim>\<open>_log_prob\<close>, \<^verbatim>\<open>_sample\<close> and \<^verbatim>\<open>_sample_and_log_prob\<close> are
  \<open>u_log_prob\<close>, \<open>u_sample\<close> and \<open>u_sample_and_log_prob\<close>: the methods on one unbatched
  point. \<open>AbstractDistribution\<close> gives the default \<^verbatim>\<open>_sample_and_log_prob\<close>,
  \<open>AbstractTransformed\<close> overrides the three.
\<close>

fun u_log_prob :: "('x, 'k, 'c) distribution \<Rightarrow> 'x \<Rightarrow> 'c option \<Rightarrow> exn + fl" where
  "u_log_prob (Base m) x condition = dm_log_prob m x condition"
| "u_log_prob (Transformed base_dist bj) x condition =
     (case inverse_and_log_det bj x condition of
        Inl e \<Rightarrow> Inl e
      | Inr (z, log_abs_det) \<Rightarrow>
          (case u_log_prob base_dist z condition of
             Inl e \<Rightarrow> Inl e
           | Inr p_z \<Rightarrow> Inr (fl_add p_z log_abs_det)))"

fun u_sample :: "('x, 'k, 'c) distribution \<Rightarrow> 'k \<Rightarrow> 'c option \<Rightarrow> exn + 'x" where
  "u_sample (Base m) key condition = dm_sample m key condition"
| "u_sample (Transformed base_dist bj) key condition =
     (case u_sample base_dist key condition of
        Inl e \<Rightarrow> Inl e
      | Inr base_sample \<Rightarrow> transform_bij bj base_sample condition)"

fun u_sample_and_log_prob ::
  "('x, 'k, 'c) distribution \<Rightarrow> 'k \<Rightarrow> 'c option \<Rightarrow> exn + 'x \<times> fl" where
  "u_sample_and_log_prob (Base m) key condition =
     (case dm_sample m key condition of
        Inl e \<Rightarrow> Inl e
      | Inr x \<Rightarrow>
          (case dm_log_prob m x condition of Inl e \<Rightarrow> Inl e | Inr lp \<Rightarrow> Inr (x, lp)))"
| "u_sample_and_log_prob (Transformed base_dist bj) key condition =
     (case u_sample_and_log_prob base_dist key condition of
        Inl e \<Rightarrow> Inl e
      | Inr (base_sample, log_prob_base) \<Rightarrow>
          (case transform_and_log_det bj base_sample condition of
             Inl e \<Rightarrow> Inl e
           | Inr (sample, forward_log_dets) \<Rightarrow>
               Inr (sample, fl_sub log_prob_base forward_log_dets)))"

fun shape :: "('x, 'k, 'c) distribution \<Rightarrow> nat list" where
  "shape (Base m) = dm_shape m"
| "shape (Transformed base_dist bj) = shape base_dist"

text \<open>
  The public methods. A batch is the list of its unbatched points, and the vectorised
  method maps the unbatched one over it, after the check of the shape of each point
  (\<open>shape_of\<close> gives the shape of an array); the first exception ends the call. The
  condition is one unbatched instance, handed on as it is. \<open>n\<close> is the product of the
  sample shape: \<^verbatim>\<open>_get_sample_keys\<close> splits the key into \<open>max 1 n\<close> keys and
  reshapes them to the sample shape, which raises when \<open>n = 0\<close> (one key, no place).
\<close>

definition vectorize :: "('a \<Rightarrow> exn + 'b) \<Rightarrow> 'a list \<Rightarrow> exn + 'b list" where
  "vectorize method xs = sequence (map method xs)"

definition check_shapes ::
  "('x \<Rightarrow> nat list) \<Rightarrow> nat list \<Rightarrow> ('x \<Rightarrow> exn + 'b) \<Rightarrow> 'x \<Rightarrow> exn + 'b" where
  "check_shapes shape_of in_shape method x =
     (if shape_of x \<noteq> in_shape then Inl ValueError else method x)"

definition log_prob ::
  "('x \<Rightarrow> nat list) \<Rightarrow> ('x, 'k, 'c) distribution \<Rightarrow> 'x list \<Rightarrow> 'c option \<Rightarrow> exn + fl list" where
  "log_prob shape_of self xs condition =
     (case vectorize (check_shapes shape_of (shape self) (\<lambda>x. u_log_prob self x condition)) xs of
        Inl e \<Rightarrow> Inl e
      | Inr lps \<Rightarrow> Inr (map (\<lambda>lp. if isnan lp then NInf else lp) lps))"

definition get_sample_keys :: "'k rng \<Rightarrow> 'k \<Rightarrow> nat \<Rightarrow> exn + 'k list" where
  "get_sample_keys g key n =
     (let keys = rng_split g key (max 1 n)
      in if n = 0 then Inl TypeError else Inr keys)"

definition sample ::
  "'k rng \<Rightarrow> ('x, 'k, 'c) distribution \<Rightarrow> 'k \<Rightarrow> nat \<Rightarrow> 'c option \<Rightarrow> exn + 'x list" where
  "sample g self key n condition =
     (case get_sample_keys g key n of
        Inl e \<Rightarrow> Inl e
      | Inr keys \<Rightarrow> vectorize (\<lambda>k. u_sample self k condition) keys)"

definition sample_and_log_prob ::
  "'k rng \<Rightarrow> ('x, 'k, 'c) distribution \<Rightarrow> 'k \<Rightarrow> nat \<Rightarrow> 'c option \<Rightarrow> exn + ('x \<times> fl) list" where
  "sample_and_log_prob g self key n condition =
     (case get_sample_keys g key n of
        Inl e \<Rightarrow> Inl e
      | Inr keys \<Rightarrow> vectorize (\<lambda>k. u_sample_and_log_prob self k condition) keys)"

text \<open>
  \<^verbatim>\<open>merge_transforms\<close> is a method of the transformed distributions. The loop collects
  the bijections from the outer one inwards, until the base is not a transformed
  distribution.
\<close>

fun collect_bijections ::
  "('x, 'k, 'c) distribution \<Rightarrow> ('x, 'c) bijection list \<Rightarrow>
     ('x, 'k, 'c) distribution \<times> ('x, 'c) bijection list" where
  "collect_bijections (Transformed base_dist bj) bijections =
     collect_bijections base_dist (bijections @ [bj])"
| "collect_bijections (Base m) bijections = (Base m, bijections)"

fun merge_transforms :: "('x, 'k, 'c) distribution \<Rightarrow> exn + ('x, 'k, 'c) distribution" where
  "merge_transforms (Base m) = Inl (AttributeError ''merge_transforms'')"
| "merge_transforms (Transformed (Base m) bj) = Inr (Transformed (Base m) bj)"
| "merge_transforms (Transformed (Transformed d b) bj) =
     (case collect_bijections (Transformed d b) [bj] of
        (base_dist, bijections) \<Rightarrow>
          Inr (Transformed base_dist (merge_chains (Chain (rev bijections)))))"

fun base_is_transformed :: "('x, 'k, 'c) distribution \<Rightarrow> bool" where
  "base_is_transformed (Transformed (Transformed d b) bj) = True"
| "base_is_transformed _ = False"

fun is_transformed :: "('x, 'k, 'c) distribution \<Rightarrow> bool" where
  "is_transformed (Transformed d b) = True"
| "is_transformed (Base m) = False"

text \<open>
  The bijection with the two inverse methods of every leaf replaced: what a method
  computes the same on \<open>with_inverse f g b\<close> as on \<open>b\<close>, for all \<open>f\<close> and \<open>g\<close>, it computes
  without the inverse of the bijection.
\<close>

fun with_inverse ::
  "('x \<Rightarrow> 'c option \<Rightarrow> exn + 'x) \<Rightarrow> ('x \<Rightarrow> 'c option \<Rightarrow> exn + 'x \<times> fl) \<Rightarrow>
     ('x, 'c) bijection \<Rightarrow> ('x, 'c) bijection" where
  "with_inverse f g (Leaf m) = Leaf (m\<lparr>bj_inverse := f, bj_inverse_and_log_det := g\<rparr>)"
| "with_inverse f g (Chain bs) = Chain (map (with_inverse f g) bs)"

text \<open>
  A standard-normal-like base distribution under a bijection whose log-determinant is
  not a number (an affine map with a scale that is not a number): the points are reals,
  the keys numbers.
\<close>

definition nan_bijection :: "(real, unit) bijection" where
  "nan_bijection =
     Leaf \<lparr> bj_transform = (\<lambda>x c. Inr x), bj_inverse = (\<lambda>y c. Inr y),
            bj_transform_and_log_det = (\<lambda>x c. Inr (x, NaN)),
            bj_inverse_and_log_det = (\<lambda>y c. Inr (y, NaN)) \<rparr>"

definition example_base :: "(real, nat, unit) distribution" where
  "example_base =
     Base \<lparr> dm_shape = [], dm_log_prob = (\<lambda>x c. Inr (Fin (- (x * x) / 2 - ln (2 * pi) / 2))),
            dm_sample = (\<lambda>k c. Inr (real k)) \<rparr>"

definition nan_distribution :: "(real, nat, unit) distribution" where
  "nan_distribution = Transformed example_base nan_bijection"

section \<open>\<open>SpecializeCondition\<close>\<close>

text \<open>
  An instance is the map of its attributes; a lookup goes to the instance first, then
  to the class. The class \<open>SpecializeCondition\<close> has the class variable \<open>cond_shape\<close>
  (\<open>None\<close>), its methods and properties, and those it inherits; no \<open>dist\<close> among them.
\<close>

datatype ('d, 'a) attribute =
  DistAttr 'd | ArrayAttr 'a | ShapeAttr "nat list" | BoolAttr bool | NoneAttr | MethodAttr

definition SpecializeCondition_class :: "string \<rightharpoonup> ('d, 'a) attribute" where
  "SpecializeCondition_class =
     [''cond_shape'' \<mapsto> NoneAttr, ''_log_prob'' \<mapsto> MethodAttr, ''_sample'' \<mapsto> MethodAttr,
      ''_sample_and_log_prob'' \<mapsto> MethodAttr, ''condition'' \<mapsto> MethodAttr,
      ''log_prob'' \<mapsto> MethodAttr, ''sample'' \<mapsto> MethodAttr,
      ''sample_and_log_prob'' \<mapsto> MethodAttr, ''ndim'' \<mapsto> MethodAttr,
      ''cond_ndim'' \<mapsto> MethodAttr, ''_vectorize'' \<mapsto> MethodAttr,
      ''_get_sample_keys'' \<mapsto> MethodAttr]"

definition getattr :: "(string \<rightharpoonup> ('d, 'a) attribute) \<Rightarrow> string \<Rightarrow> exn + ('d, 'a) attribute" where
  "getattr self name =
     (case self name of
        Some v \<Rightarrow> Inr v
      | None \<Rightarrow>
          (case SpecializeCondition_class name of
             Some v \<Rightarrow> Inr v
           | None \<Rightarrow> Inl (AttributeError name)))"

text \<open>
  What the constructor takes from outside: \<^verbatim>\<open>arraylike_to_array\<close>, which may raise, the
  shape of an array, and the attributes \<open>cond_shape\<close> and \<open>shape\<close> of a distribution.
\<close>

record ('r, 'a, 'd) environment =
  arraylike_to_array :: "'r \<Rightarrow> exn + 'a"
  array_shape :: "'a \<Rightarrow> nat list"
  dist_cond_shape :: "'d \<Rightarrow> nat list option"
  dist_shape :: "'d \<Rightarrow> nat list"

definition SpecializeCondition_init ::
  "('r, 'a, 'd) environment \<Rightarrow> (string \<rightharpoonup> ('d, 'a) attribute) \<Rightarrow> 'd \<Rightarrow> 'r \<Rightarrow> bool \<Rightarrow>
     exn + (string \<rightharpoonup> ('d, 'a) attribute)" where
  "SpecializeCondition_init env self dist0 condition stop_grad =
     (case arraylike_to_array env condition of
        Inl e \<Rightarrow> Inl e
      | Inr cond \<Rightarrow>
          (case getattr self ''dist'' of
             Inl e \<Rightarrow> Inl e
           | Inr v \<Rightarrow>
               (case v of
                  DistAttr d \<Rightarrow>
                    if dist_cond_shape env d \<noteq> Some (array_shape env cond) then Inl ValueError
                    else Inr (self(''dist'' \<mapsto> DistAttr dist0, ''_condition'' \<mapsto> ArrayAttr cond,
                                   ''shape'' \<mapsto> ShapeAttr (dist_shape env dist0),
                                   ''stop_gradient'' \<mapsto> BoolAttr stop_grad))
                | _ \<Rightarrow> Inl (AttributeError ''cond_shape''))))"

text \<open>The public constructor runs \<^verbatim>\<open>__init__\<close> on a new instance, which has no attribute.\<close>

definition SpecializeCondition_new ::
  "('r, 'a, 'd) environment \<Rightarrow> 'd \<Rightarrow> 'r \<Rightarrow> bool \<Rightarrow> exn + (string \<rightharpoonup> ('d, 'a) attribute)" where
  "SpecializeCondition_new env dist0 condition stop_grad =
     SpecializeCondition_init env Map.empty dist0 condition stop_grad"

section \<open>The range of the floating-point format\<close>

lemma fl_fmin_pos: "0 < fl_fmin"
  by (simp add: fl_fmin_def)

lemma fl_fmin_le_one: "fl_fmin \<le> 1"
  by (simp add: fl_fmin_def)

lemma fl_fmax_ge_one: "1 \<le> fl_fmax"
  by (simp add: fl_fmax_def)

lemma fl_fmin_le_fmax: "fl_fmin \<le> fl_fmax"
  using fl_fmin_le_one fl_fmax_ge_one by linarith

lemma fl_range_exact: "fl_fmin \<le> \<bar>r\<bar> \<Longrightarrow> \<bar>r\<bar> \<le> fl_fmax \<Longrightarrow> fl_range r = Fin r"
  by (auto simp: fl_range_def)

lemma fl_range_flush: "\<bar>r\<bar> < fl_fmin \<Longrightarrow> fl_range r = Fin 0"
  using fl_fmin_le_fmax by (auto simp: fl_range_def)

lemma fl_range_over: "fl_fmax < r \<Longrightarrow> fl_range r = PInf"
  by (simp add: fl_range_def)

lemma fl_range_zero: "fl_range 0 = Fin 0"
  using fl_fmin_pos by (intro fl_range_flush) simp

lemma fl_range_one: "fl_range 1 = Fin 1"
  using fl_fmin_le_one fl_fmax_ge_one by (intro fl_range_exact) simp_all

lemma fl_range_not_nan: "fl_range r \<noteq> NaN"
  by (simp add: fl_range_def)

lemma fl_range_nonneg:
  assumes "0 \<le> r"
  shows "fl_range r = PInf \<or> (\<exists>q. fl_range r = Fin q \<and> 0 \<le> q \<and> (fl_fmin \<le> r \<longrightarrow> 0 < q))"
proof -
  have "\<not> r < - fl_fmax" using assms fl_fmax_ge_one by linarith
  then show ?thesis using assms fl_fmin_pos by (auto simp: fl_range_def)
qed

lemma fl_range_bounded:
  assumes "0 \<le> r" "r \<le> fl_fmax"
  shows "\<exists>q. fl_range r = Fin q \<and> 0 \<le> q \<and> q \<le> fl_fmax \<and> (q = r \<or> q = 0)"
proof -
  have "\<not> r < - fl_fmax" using assms fl_fmax_ge_one by linarith
  then show ?thesis using assms fl_fmax_ge_one by (auto simp: fl_range_def)
qed

lemma fl_mul_zero: "fl_mul (Fin a) (Fin 0) = Fin 0" "fl_mul (Fin 0) (Fin a) = Fin 0"
  by (simp_all add: fl_range_zero)

lemma fl_mul_one: "fl_mul (Fin 1) (Fin 1) = Fin 1"
  by (simp add: fl_range_one)

section \<open>The activation: \<open>_TanhBNAF\<close>\<close>

lemma ln_tanh: "ln (1 - (tanh a)\<^sup>2) = - 2 * (a + ln (1 + exp (- 2 * a)) - ln 2)" for a :: real
proof -
  define e where "e = exp (- 2 * a)"
  have e: "0 < e" by (simp add: e_def)
  have t: "tanh a = (1 - e) / (1 + e)" unfolding e_def by (rule tanh_real_altdef)
  have ne: "(1 + e)\<^sup>2 \<noteq> 0" using e by simp
  have "(1 - (tanh a)\<^sup>2) * (1 + e)\<^sup>2 = (1 + e)\<^sup>2 - (1 - e)\<^sup>2"
    using e unfolding t by (simp add: power_divide algebra_simps)
  also have "\<dots> = 4 * e" by (simp add: power2_eq_square algebra_simps)
  finally have "1 - (tanh a)\<^sup>2 = 4 * e / (1 + e)\<^sup>2"
    using ne by (simp add: field_simps)
  then have "ln (1 - (tanh a)\<^sup>2) = ln (4 * e / (1 + e)\<^sup>2)" by simp
  also have "\<dots> = ln 4 + ln e - 2 * ln (1 + e)"
    using e by (simp add: ln_div ln_mult ln_realpow)
  also have "ln e = - 2 * a" by (simp add: e_def)
  also have "ln (4::real) = 2 * ln 2"
  proof -
    have "ln ((2::real) ^ 2) = 2 * ln 2" by (subst ln_realpow) simp_all
    then show ?thesis by simp
  qed
  finally show ?thesis by (simp add: e_def)
qed

lemma set_diag_full:
  assumes "length v = d"
  shows "set_diag (replicate d (replicate d NInf)) v =
         map (\<lambda>i. map (\<lambda>j. if i = j then v ! i else NInf) [0..<d]) [0..<d]"
proof (rule nth_equalityI)
  show "length (set_diag (replicate d (replicate d NInf)) v) =
        length (map (\<lambda>i. map (\<lambda>j. if i = j then v ! i else NInf) [0..<d]) [0..<d])"
    by (simp add: set_diag_def)
next
  fix i assume "i < length (set_diag (replicate d (replicate d NInf)) v)"
  then have i: "i < d" by (simp add: set_diag_def)
  have "set_diag (replicate d (replicate d NInf)) v ! i = (replicate d NInf)[i := v ! i]"
    using i assms by (simp add: set_diag_def nth_enumerate_eq)
  also have "\<dots> = map (\<lambda>j. if i = j then v ! i else NInf) [0..<d]"
    using i by (intro nth_equalityI) (simp_all add: nth_list_update)
  finally show "set_diag (replicate d (replicate d NInf)) v ! i =
        map (\<lambda>i. map (\<lambda>j. if i = j then v ! i else NInf) [0..<d]) [0..<d] ! i"
    using i by simp
qed

lemma block_offset_le: "b < n \<Longrightarrow> b * d + d \<le> n * (d::nat)"
  by (metis Suc_leI mult_Suc mult_le_mono1 add.commute)

lemma reshape2_nth:
  assumes "length xs = n * d" "b < n"
  shows "length (reshape2 n d xs ! b) = d"
    and "i < d \<Longrightarrow> reshape2 n d xs ! b ! i = xs ! (b * d + i)"
proof -
  have le: "d \<le> length xs - b * d" using block_offset_le[OF assms(2), of d] assms(1) by simp
  show "length (reshape2 n d xs ! b) = d"
    using assms(2) le by (simp add: reshape2_def)
  show "i < d \<Longrightarrow> reshape2 n d xs ! b ! i = xs ! (b * d + i)"
    using assms(2) le by (simp add: reshape2_def)
qed

lemma ln_dtanh_bounds:
  fixes a :: real
  shows "ln (1 - (tanh a)\<^sup>2) \<le> 0" and "- (2 * \<bar>a\<bar>) \<le> ln (1 - (tanh a)\<^sup>2)"
proof -
  have "(tanh a)\<^sup>2 < 1"
    using tanh_real_bounds[of a] by (simp add: abs_square_less_1 abs_if)
  then have p: "0 < 1 - (tanh a)\<^sup>2" by simp
  have "1 - (tanh a)\<^sup>2 \<le> 1" by simp
  then show "ln (1 - (tanh a)\<^sup>2) \<le> 0" using p by simp
  have q: "a + ln (1 + exp (- 2 * a)) - ln 2 \<le> \<bar>a\<bar>"
  proof (cases "0 \<le> a")
    case True
    then have "exp (- 2 * a) \<le> 1" by simp
    then have "ln (1 + exp (- 2 * a)) \<le> ln 2" by (subst ln_le_cancel_iff) (simp_all add: add_pos_pos)
    then show ?thesis using True by simp
  next
    case False
    then have "1 \<le> exp (- 2 * a)" by simp
    then have "1 + exp (- 2 * a) \<le> 2 * exp (- 2 * a)" by simp
    then have "ln (1 + exp (- 2 * a)) \<le> ln (2 * exp (- 2 * a))"
      by (subst ln_le_cancel_iff) (simp_all add: add_pos_pos)
    also have "\<dots> = ln 2 - 2 * a" by (simp add: ln_mult)
    finally show ?thesis using False by simp
  qed
  show "- (2 * \<bar>a\<bar>) \<le> ln (1 - (tanh a)\<^sup>2)"
    unfolding ln_tanh using q by simp
qed

lemma tanh_log_det_val:
  assumes "v \<noteq> NInf" and "\<And>a. v = Fin a \<Longrightarrow> 2 * \<bar>a\<bar> \<le> fl_fmax"
  shows "fl_mul (Fin (- 2)) (fl_sub (fl_add v (softplus (fl_mul (Fin (- 2)) v))) (fl_log (Fin 2)))
         = log_dtanh v"
proof (cases v)
  case NaN
  then show ?thesis by (simp add: fl_sub_def)
next
  case NInf
  then show ?thesis using assms(1) by simp
next
  case PInf
  then show ?thesis by (simp add: fl_sub_def)
next
  case (Fin a)
  have b: "2 * \<bar>a\<bar> \<le> fl_fmax" using assms(2) Fin by simp
  have l2: "fl_log (Fin 2) = Fin (ln 2)" by simp
  show ?thesis
  proof (cases "fl_fmin \<le> 2 * \<bar>a\<bar>")
    case True
    have "fl_range (- 2 * a) = Fin (- 2 * a)" using True b by (intro fl_range_exact) simp_all
    then show ?thesis
      unfolding Fin l2 by (simp add: fl_sub_def ln_tanh)
  next
    case False
    then have small: "\<bar>- 2 * a\<bar> < fl_fmin" by simp
    have f: "fl_range (- 2 * a) = Fin 0" by (rule fl_range_flush[OF small])
    have "\<bar>ln (1 - (tanh a)\<^sup>2)\<bar> < fl_fmin"
      using ln_dtanh_bounds[of a] False by simp
    then have "fl_range (ln (1 - (tanh a)\<^sup>2)) = Fin 0" by (rule fl_range_flush)
    then show ?thesis
      unfolding Fin l2 using f by (simp add: fl_sub_def)
  qed
qed

lemma TanhBNAF_call_general:
  assumes "0 < n" and "length x = n * d"
    and "\<forall>v\<in>set x. v \<noteq> NInf \<and> (\<forall>a. v = Fin a \<longrightarrow> 2 * \<bar>a\<bar> \<le> fl_fmax)"
  shows "TanhBNAF_call n x =
           Inr (map fl_tanh x,
                map (\<lambda>b. map (\<lambda>i. map (\<lambda>j. if i = j then log_dtanh (x ! (b * d + i)) else NInf)
                     [0..<d]) [0..<d]) [0..<n])"
proof -
  define vals where "vals = map log_dtanh x"
  have d: "length x div n = d" using assms by simp
  have vals: "map (\<lambda>v. fl_mul (Fin (- 2))
                 (fl_sub (fl_add v (softplus (fl_mul (Fin (- 2)) v))) (fl_log (Fin 2)))) x = vals"
    unfolding vals_def
  proof (rule map_cong[OF refl])
    fix v assume "v \<in> set x"
    then have "v \<noteq> NInf" and "\<And>a. v = Fin a \<Longrightarrow> 2 * \<bar>a\<bar> \<le> fl_fmax"
      using assms(3) by blast+
    then show "fl_mul (Fin (- 2)) (fl_sub (fl_add v (softplus (fl_mul (Fin (- 2)) v))) (fl_log (Fin 2)))
               = log_dtanh v"
      by (rule tanh_log_det_val)
  qed
  have lv: "length vals = n * d" by (simp add: vals_def assms)
  have "map2 set_diag (replicate n (replicate d (replicate d NInf))) (reshape2 n d vals) =
        map (\<lambda>b. map (\<lambda>i. map (\<lambda>j. if i = j then log_dtanh (x ! (b * d + i)) else NInf)
                     [0..<d]) [0..<d]) [0..<n]" (is "?L = ?R")
  proof (rule nth_equalityI)
    show "length ?L = length ?R" by (simp add: reshape2_def)
  next
    fix b assume "b < length ?L"
    then have b: "b < n" by (simp add: reshape2_def)
    have len: "length (reshape2 n d vals ! b) = d" using reshape2_nth(1)[OF lv b] .
    have "?L ! b = set_diag (replicate d (replicate d NInf)) (reshape2 n d vals ! b)"
      using b by (simp add: reshape2_def)
    also have "\<dots> = map (\<lambda>i. map (\<lambda>j. if i = j then (reshape2 n d vals ! b) ! i else NInf) [0..<d]) [0..<d]"
      by (rule set_diag_full[OF len])
    also have "\<dots> = ?R ! b"
    proof -
      have "\<And>i. i < d \<Longrightarrow> reshape2 n d vals ! b ! i = log_dtanh (x ! (b * d + i))"
      proof -
        fix i assume i: "i < d"
        have "b * d + i < length x" using i assms(2) block_offset_le[OF b, of d] by simp
        then show "reshape2 n d vals ! b ! i = log_dtanh (x ! (b * d + i))"
          using reshape2_nth(2)[OF lv b i] by (simp add: vals_def)
      qed
      then show ?thesis using b by simp
    qed
    finally show "?L ! b = ?R ! b" .
  qed
  moreover have "map (\<lambda>v. fl_mul (Fin (- 2))
                 (fl_sub (fl_add v (softplus (fl_mul (Fin (- 2)) v))) (Fin (ln 2)))) x = vals"
    using vals by simp
  ultimately show ?thesis
    using assms(1) d by (simp add: TanhBNAF_call_def assms(2) Let_def)
qed




section \<open>The log-domain matrix product\<close>





lemma map2_map_same: "map2 g xs (map f xs) = map (\<lambda>x. g x (f x)) xs"
  by (induction xs) simp_all
















section \<open>The block masks\<close>

lemma shapedD: "shaped r c A \<Longrightarrow> length A = r" "shaped r c A \<Longrightarrow> i < r \<Longrightarrow> length (A ! i) = c"
  by (auto simp: shaped_def)

lemma shapedI: "length A = r \<Longrightarrow> (\<And>i. i < r \<Longrightarrow> length (A ! i) = c) \<Longrightarrow> shaped r c A"
  by (auto simp: shaped_def in_set_conv_nth)

lemma set_slice_shaped: "shaped R C msk \<Longrightarrow> shaped R C (set_slice r0 c0 c1 msk)"
  by (rule shapedI) (simp_all add: set_slice_def shapedD nth_enumerate_eq)

lemma set_slice_nth:
  assumes "shaped R C msk" "i < R" "j < C"
  shows "set_slice r0 c0 c1 msk ! i ! j = (if r0 \<le> i \<and> c0 \<le> j \<and> j < c1 then Fin 1 else msk ! i ! j)"
  using assms by (simp add: set_slice_def shapedD nth_enumerate_eq)

lemma zeros_shaped: "shaped r c (zeros r c)"
  by (simp add: shaped_def zeros_def)

lemma tril_fold:
  "shaped R C (fold (\<lambda>i msk. set_slice ((i + 1) * r) (i * c) ((i + 1) * c) msk) [0..<t] (zeros R C)) \<and>
   (\<forall>i<R. \<forall>j<C. fold (\<lambda>i msk. set_slice ((i + 1) * r) (i * c) ((i + 1) * c) msk) [0..<t] (zeros R C) ! i ! j
       = (if \<exists>b<t. (b + 1) * r \<le> i \<and> b * c \<le> j \<and> j < (b + 1) * c then Fin 1 else Fin 0))"
proof (induction t)
  case 0
  show ?case by (simp add: zeros_shaped) (simp add: zeros_def)
next
  case (Suc t)
  let ?m = "fold (\<lambda>i msk. set_slice ((i + 1) * r) (i * c) ((i + 1) * c) msk) [0..<t] (zeros R C)"
  have sh: "shaped R C ?m" using Suc by blast
  have step: "fold (\<lambda>i msk. set_slice ((i + 1) * r) (i * c) ((i + 1) * c) msk) [0..<Suc t] (zeros R C)
        = set_slice ((t + 1) * r) (t * c) ((t + 1) * c) ?m"
    by simp
  show ?case
    unfolding step
  proof (intro conjI allI impI)
    show "shaped R C (set_slice ((t + 1) * r) (t * c) ((t + 1) * c) ?m)"
      by (rule set_slice_shaped[OF sh])
  next
    fix i j assume ij: "i < R" "j < C"
    have old: "?m ! i ! j = (if \<exists>b<t. (b + 1) * r \<le> i \<and> b * c \<le> j \<and> j < (b + 1) * c then Fin 1 else Fin 0)"
      using Suc ij by blast
    show "set_slice ((t + 1) * r) (t * c) ((t + 1) * c) ?m ! i ! j =
          (if \<exists>b<Suc t. (b + 1) * r \<le> i \<and> b * c \<le> j \<and> j < (b + 1) * c then Fin 1 else Fin 0)"
      unfolding set_slice_nth[OF sh ij] old
      by (auto simp: less_Suc_eq)
  qed
qed

lemma block_index:
  assumes "0 < (c::nat)"
  shows "(b * c \<le> j \<and> j < (b + 1) * c) \<longleftrightarrow> j div c = b"
proof
  assume "b * c \<le> j \<and> j < (b + 1) * c"
  then show "j div c = b"
    using assms by (metis Suc_eq_plus1 div_nat_eqI mult.commute)
next
  assume "j div c = b"
  then show "b * c \<le> j \<and> j < (b + 1) * c"
    using assms by (metis Suc_eq_plus1 div_nat_eqI mult.commute dividend_less_div_times div_times_less_eq_dividend add.commute mult_Suc)
qed

lemma b_tril_mask_shaped: "shaped (r * n) (c * n) (b_tril_mask (r, c) n)"
  using tril_fold[of "r * n" "c * n" r c n] by (simp add: b_tril_mask_def)

lemma b_tril_mask_nth:
  assumes "i < r * n" "j < c * n"
  shows "b_tril_mask (r, c) n ! i ! j = (if j div c < i div r then Fin 1 else Fin 0)"
proof -
  have r: "0 < r" and c: "0 < c" using assms by (auto intro: gr0I)
  have jn: "j div c < n" using assms(2) c by (simp add: less_mult_imp_div_less mult.commute)
  have bi: "(b * c \<le> j \<and> j < (b + 1) * c) \<longleftrightarrow> j div c = b" for b
    by (rule block_index[OF c])
  have "(\<exists>b<n. (b + 1) * r \<le> i \<and> b * c \<le> j \<and> j < (b + 1) * c) \<longleftrightarrow> (j div c + 1) * r \<le> i"
  proof
    assume "\<exists>b<n. (b + 1) * r \<le> i \<and> b * c \<le> j \<and> j < (b + 1) * c"
    then obtain b where b: "(b + 1) * r \<le> i" "b * c \<le> j \<and> j < (b + 1) * c" by blast
    from b(2) have "j div c = b" by (simp only: bi)
    with b(1) show "(j div c + 1) * r \<le> i" by simp
  next
    assume a: "(j div c + 1) * r \<le> i"
    have "j div c * c \<le> j \<and> j < (j div c + 1) * c" by (simp only: bi)
    with a jn show "\<exists>b<n. (b + 1) * r \<le> i \<and> b * c \<le> j \<and> j < (b + 1) * c" by blast
  qed
  also have "\<dots> \<longleftrightarrow> j div c + 1 \<le> i div r"
    using r by (simp only: less_eq_div_iff_mult_less_eq)
  also have "\<dots> \<longleftrightarrow> j div c < i div r" by linarith
  finally have eq: "(\<exists>b<n. (b + 1) * r \<le> i \<and> b * c \<le> j \<and> j < (b + 1) * c) \<longleftrightarrow> j div c < i div r" .
  have "b_tril_mask (r, c) n ! i ! j =
     (if \<exists>b<n. (b + 1) * r \<le> i \<and> b * c \<le> j \<and> j < (b + 1) * c then Fin 1 else Fin 0)"
    using tril_fold[of "r * n" "c * n" r c n] assms by (simp add: b_tril_mask_def)
  then show ?thesis by (simp only: eq)
qed

lemma diag_inv_step:
  assumes "diag_inv r c t acc"
  shows "diag_inv r c (Suc t)
     (map (\<lambda>row. row @ replicate c (Fin 0)) acc @ map (\<lambda>row. replicate (t * c) (Fin 0) @ row) (ones (r, c)))"
    (is "diag_inv r c (Suc t) ?acc")
proof -
  have sh: "shaped (t * r) (t * c) acc" and
    ent: "\<And>i j. i < t * r \<Longrightarrow> j < t * c \<Longrightarrow> acc ! i ! j = (if i div r = j div c then Fin 1 else Fin 0)"
    using assms by (auto simp: diag_inv_def)
  have len: "length acc = t * r" using sh by (simp add: shaped_def)
  have sh': "shaped (Suc t * r) (Suc t * c) ?acc"
    using sh by (auto simp: shaped_def ones_def)
  have ent': "?acc ! i ! j = (if i div r = j div c then Fin 1 else Fin 0)"
    if i: "i < Suc t * r" and j: "j < Suc t * c" for i j
  proof -
    have r: "0 < r" and c: "0 < c" using i j by (auto intro: gr0I)
    show ?thesis
    proof (cases "i < t * r")
      case True
      then have it: "i div r < t" using r by (simp add: less_mult_imp_div_less)
      have row: "?acc ! i = acc ! i @ replicate c (Fin 0)"
        using True len by (simp add: nth_append)
      have la: "length (acc ! i) = t * c" using sh True by (simp add: shapedD)
      show ?thesis
      proof (cases "j < t * c")
        case jt: True
        then show ?thesis using row la ent[OF True jt] by (simp add: nth_append)
      next
        case False
        then have "t \<le> j div c" using c by (simp add: less_eq_div_iff_mult_less_eq)
        then have "i div r \<noteq> j div c" using it by simp
        moreover have "j - t * c < c" using j False by simp
        ultimately show ?thesis using row la False by (simp add: nth_append)
      qed
    next
      case False
      then have ge: "t * r \<le> i" by simp
      then have "t \<le> i div r" using r by (simp add: less_eq_div_iff_mult_less_eq)
      moreover have "i div r < Suc t" using i r by (simp add: less_mult_imp_div_less)
      ultimately have it: "i div r = t" by simp
      have ir: "i - t * r < r" using i ge by simp
      have row: "?acc ! i = replicate (t * c) (Fin 0) @ replicate c (Fin 1)"
        using False len ir by (simp add: nth_append ones_def)
      show ?thesis
      proof (cases "j < t * c")
        case True
        then have "j div c < t" using c by (simp add: less_mult_imp_div_less)
        then show ?thesis using row True it by (simp add: nth_append)
      next
        case False
        then have "t \<le> j div c" using c by (simp add: less_eq_div_iff_mult_less_eq)
        moreover have "j div c < Suc t" using j c by (simp add: less_mult_imp_div_less)
        ultimately have "j div c = t" by simp
        moreover have "j - t * c < c" using j False by simp
        ultimately show ?thesis using row False it by (simp add: nth_append)
      qed
    qed
  qed
  show ?thesis
    unfolding diag_inv_def
  proof (intro conjI allI impI)
    show "shaped (Suc t * r) (Suc t * c) ?acc" by (rule sh')
  next
    fix i j assume "i < Suc t * r" "j < Suc t * c"
    then show "?acc ! i ! j = (if i div r = j div c then Fin 1 else Fin 0)" by (rule ent')
  qed
qed

lemma block_diag_from_inv:
  "diag_inv r c t acc \<Longrightarrow>
   diag_inv r c (t + k) (block_diag_from (t * c) acc (replicate k (c, ones (r, c))))"
proof (induction k arbitrary: t acc)
  case 0
  then show ?case by simp
next
  case (Suc k)
  have "diag_inv r c (Suc t + k)
          (block_diag_from (Suc t * c)
             (map (\<lambda>row. row @ replicate c (Fin 0)) acc @ map (\<lambda>row. replicate (t * c) (Fin 0) @ row) (ones (r, c)))
             (replicate k (c, ones (r, c))))"
    by (rule Suc.IH[OF diag_inv_step[OF Suc.prems]])
  then show ?case by (simp add: add.commute[of c])
qed

lemma b_diag_mask_inv: "0 < n \<Longrightarrow> diag_inv r c n (b_diag_mask (r, c) n)"
proof -
  assume n: "0 < n"
  then obtain k where k: "n = Suc k" by (cases n) auto
  have one: "diag_inv r c 1 (ones (r, c))"
    unfolding diag_inv_def
  proof (intro conjI allI impI)
    show "shaped (1 * r) (1 * c) (ones (r, c))" by (simp add: shaped_def ones_def)
  next
    fix i j assume "i < 1 * r" "j < 1 * c"
    then show "ones (r, c) ! i ! j = (if i div r = j div c then Fin 1 else Fin 0)"
      by (simp add: ones_def)
  qed
  have "b_diag_mask (r, c) n = block_diag_from (1 * c) (ones (r, c)) (replicate k (c, ones (r, c)))"
    by (simp add: b_diag_mask_def k map_replicate_const)
  then show ?thesis using block_diag_from_inv[OF one, of k] by (simp add: k)
qed

lemma b_diag_mask_shaped: "0 < n \<Longrightarrow> shaped (r * n) (c * n) (b_diag_mask (r, c) n)"
  using b_diag_mask_inv[of n r c] by (simp add: diag_inv_def mult.commute)

lemma b_diag_mask_nth:
  "i < r * n \<Longrightarrow> j < c * n \<Longrightarrow>
   b_diag_mask (r, c) n ! i ! j = (if i div r = j div c then Fin 1 else Fin 0)"
proof -
  assume ij: "i < r * n" "j < c * n"
  then have "0 < n" by (auto intro: gr0I)
  then show ?thesis using b_diag_mask_inv[of n r c] ij by (simp add: diag_inv_def mult.commute)
qed

section \<open>The masked linear block layer\<close>

lemma mat_map2_nth:
  "shaped R C A \<Longrightarrow> shaped R C B \<Longrightarrow> i < R \<Longrightarrow> j < C \<Longrightarrow> mat_map2 f A B ! i ! j = f (A ! i ! j) (B ! i ! j)"
  by (simp add: mat_map2_def shapedD)

lemma mat_map2_shaped: "shaped R C A \<Longrightarrow> shaped R C B \<Longrightarrow> shaped R C (mat_map2 f A B)"
  by (rule shapedI) (simp_all add: mat_map2_def shapedD)

lemma mat_map_nth: "shaped R C A \<Longrightarrow> i < R \<Longrightarrow> j < C \<Longrightarrow> mat_map f A ! i ! j = f (A ! i ! j)"
  by (simp add: mat_map_def shapedD)

lemma mat_map_shaped: "shaped R C A \<Longrightarrow> shaped R C (mat_map f A)"
  by (rule shapedI) (simp_all add: mat_map_def shapedD)

lemma finite_matD: "finite_mat A \<Longrightarrow> shaped R C A \<Longrightarrow> i < R \<Longrightarrow> j < C \<Longrightarrow> \<exists>a. A ! i ! j = Fin a"
proof -
  assume f: "finite_mat A" and s: "shaped R C A" and i: "i < R" and j: "j < C"
  have "A ! i \<in> set A" using s i by (simp add: shapedD)
  moreover have "A ! i ! j \<in> set (A ! i)" using s i j by (simp add: shapedD)
  ultimately have "is_fin (A ! i ! j)" using f unfolding finite_mat_def by blast
  then show ?thesis by (cases "A ! i ! j") simp_all
qed

lemma fl_square_nonneg: "v \<noteq> NaN \<Longrightarrow> fl_nonneg (fl_mul v v)"
proof (cases v)
  case (Fin a)
  have "0 \<le> a * a" by simp
  from fl_range_nonneg[OF this] show ?thesis unfolding Fin by auto
qed simp_all

lemma fl_square_positive: "fl_fmin \<le> e * e \<Longrightarrow> fl_positive (fl_mul (Fin e) (Fin e))"
proof -
  assume h: "fl_fmin \<le> e * e"
  have "0 \<le> e * e" by simp
  from fl_range_nonneg[OF this] h show ?thesis by auto
qed

lemma fl_positive_nonneg: "fl_positive v \<Longrightarrow> fl_nonneg v"
  by (cases v) simp_all

lemma fl_add_nonneg: "fl_nonneg a \<Longrightarrow> fl_nonneg b \<Longrightarrow> fl_nonneg (fl_add a b)"
  by (cases a; cases b) simp_all

lemma fl_add_positive:
  "fl_positive a \<Longrightarrow> fl_nonneg b \<Longrightarrow> fl_positive (fl_add a b)"
  "fl_nonneg a \<Longrightarrow> fl_positive b \<Longrightarrow> fl_positive (fl_add a b)"
  by (cases a; cases b; simp)+

lemma foldl_fl_add_nonneg:
  "fl_nonneg a \<Longrightarrow> (\<And>x. x \<in> set xs \<Longrightarrow> fl_nonneg x) \<Longrightarrow> fl_nonneg (foldl fl_add a xs)"
proof (induction xs arbitrary: a)
  case Nil
  then show ?case by simp
next
  case (Cons b xs)
  have "fl_nonneg (fl_add a b)" using Cons.prems by (intro fl_add_nonneg) simp_all
  then have "fl_nonneg (foldl fl_add (fl_add a b) xs)" using Cons.prems(2) by (intro Cons.IH) simp_all
  then show ?case by simp
qed

lemma foldl_fl_add_positive_init:
  "fl_positive a \<Longrightarrow> (\<And>x. x \<in> set xs \<Longrightarrow> fl_nonneg x) \<Longrightarrow> fl_positive (foldl fl_add a xs)"
proof (induction xs arbitrary: a)
  case Nil
  then show ?case by simp
next
  case (Cons b xs)
  have "fl_positive (fl_add a b)" using Cons.prems by (intro fl_add_positive(1)) simp_all
  then have "fl_positive (foldl fl_add (fl_add a b) xs)" using Cons.prems(2) by (intro Cons.IH) simp_all
  then show ?case by simp
qed

lemma foldl_fl_add_positive:
  "fl_nonneg a \<Longrightarrow> (\<And>x. x \<in> set xs \<Longrightarrow> fl_nonneg x) \<Longrightarrow> x0 \<in> set xs \<Longrightarrow> fl_positive x0 \<Longrightarrow>
   fl_positive (foldl fl_add a xs)"
proof (induction xs arbitrary: a)
  case Nil
  then show ?case by simp
next
  case (Cons b xs)
  have nb: "fl_nonneg b" using Cons.prems(2) by simp
  have nx: "\<And>x. x \<in> set xs \<Longrightarrow> fl_nonneg x" using Cons.prems(2) by simp
  show ?case
  proof (cases "x0 = b")
    case True
    then have "fl_positive (fl_add a b)" using Cons.prems(1,4) by (intro fl_add_positive(2)) simp_all
    then have "fl_positive (foldl fl_add (fl_add a b) xs)" using nx by (rule foldl_fl_add_positive_init)
    then show ?thesis by simp
  next
    case False
    then have m: "x0 \<in> set xs" using Cons.prems(3) by simp
    have "fl_nonneg (fl_add a b)" using Cons.prems(1) nb by (rule fl_add_nonneg)
    then have "fl_positive (foldl fl_add (fl_add a b) xs)" using nx m Cons.prems(4) by (rule Cons.IH)
    then show ?thesis by simp
  qed
qed

lemma row_norm_positive:
  assumes "\<And>v. v \<in> set row \<Longrightarrow> v \<noteq> NaN"
    and "Fin e \<in> set row" and "fl_fmin \<le> e * e"
  shows "fl_positive (fl_sqrt (fl_sum (map (\<lambda>v. fl_mul v v) row)))"
proof -
  have nn: "\<And>x. x \<in> set (map (\<lambda>v. fl_mul v v) row) \<Longrightarrow> fl_nonneg x"
    using assms(1) by (auto intro: fl_square_nonneg)
  have m: "fl_mul (Fin e) (Fin e) \<in> set (map (\<lambda>v. fl_mul v v) row)"
    using assms(2) by (simp only: set_map) (rule imageI)
  have "fl_positive (foldl fl_add (Fin 0) (map (\<lambda>v. fl_mul v v) row))"
    by (rule foldl_fl_add_positive[OF _ nn m fl_square_positive[OF assms(3)]]) simp_all
  then have p: "fl_positive (fl_sum (map (\<lambda>v. fl_mul v v) row))" by (simp only: fl_sum_def)
  show ?thesis
  proof (cases "fl_sum (map (\<lambda>v. fl_mul v v) row)")
    case (Fin a)
    then show ?thesis using p by simp
  qed (use p in simp_all)
qed

lemma fl_div_zero_positive: "fl_positive p \<Longrightarrow> fl_div (Fin 0) p = Fin 0"
  by (cases p) (simp_all add: fl_range_zero)

lemma fl_exp_bounded: "exp w \<le> fl_fmax \<Longrightarrow> \<exists>q. fl_exp (Fin w) = Fin q \<and> 0 \<le> q \<and> q \<le> fl_fmax"
  using fl_range_bounded[of "exp w"] by auto

lemma exp_square_fmin:
  assumes "fl_fmin \<le> exp w * exp (w::real)"
  shows "fl_fmin \<le> exp w"
proof (cases "exp w \<le> 1")
  case True
  have "exp w * exp w \<le> exp w * 1" using True by (intro mult_left_mono) simp_all
  then show ?thesis using assms by linarith
next
  case False
  then show ?thesis using fl_fmin_le_one by linarith
qed

lemma masked_entry_zero:
  assumes "exp w \<le> fl_fmax"
  shows "fl_add (fl_mul (fl_exp (Fin w)) (Fin 0)) (fl_mul (Fin w) (Fin 0)) = Fin 0"
proof -
  obtain q where "fl_exp (Fin w) = Fin q" using fl_exp_bounded[OF assms] by blast
  then show ?thesis by (simp only: fl_mul_zero fl_add.simps) simp
qed

lemma diagonal_entry_exp:
  assumes "exp w \<le> fl_fmax" "fl_fmin \<le> exp w"
  shows "fl_add (fl_mul (fl_exp (Fin w)) (Fin 1)) (fl_mul (Fin w) (Fin 0)) = Fin (exp w)"
proof -
  have r: "fl_range (exp w) = Fin (exp w)" using assms by (intro fl_range_exact) simp_all
  show ?thesis by (simp add: r fl_range_zero)
qed

lemma entry_not_nan:
  assumes "exp w \<le> fl_fmax" and "d = Fin 0 \<or> d = Fin 1" and "t = Fin 0 \<or> t = Fin 1"
  shows "fl_add (fl_mul (fl_exp (Fin w)) d) (fl_mul (Fin w) t) \<noteq> NaN"
proof -
  obtain q where q: "fl_exp (Fin w) = Fin q" "0 \<le> q" "q \<le> fl_fmax"
    using fl_exp_bounded[OF assms(1)] by blast
  obtain q' where q': "fl_range q = Fin q'" using fl_range_bounded[OF q(2,3)] by blast
  have 1: "\<exists>x. fl_mul (fl_exp (Fin w)) d = Fin x"
    using assms(2) by (auto simp: q(1) fl_range_zero q' simp del: fl_exp.simps)
  obtain z where 2: "fl_mul (Fin w) t = fl_range z" using assms(3) by auto
  from 1 obtain x where x: "fl_mul (fl_exp (Fin w)) d = Fin x" by blast
  show ?thesis unfolding x 2 by (simp add: fl_range_def)
qed

lemma col_mat_nth:
  "shaped R 1 S \<Longrightarrow> shaped R C A \<Longrightarrow> i < R \<Longrightarrow> j < C \<Longrightarrow> col_mat f S A ! i ! j = f (hd (S ! i)) (A ! i ! j)"
  by (simp add: col_mat_def shapedD)

lemma col_mat_shaped: "shaped R 1 S \<Longrightarrow> shaped R C A \<Longrightarrow> shaped R C (col_mat f S A)"
  by (rule shapedI) (simp_all add: col_mat_def shapedD)

lemma mat_col_nth:
  "shaped R 1 S \<Longrightarrow> shaped R C A \<Longrightarrow> i < R \<Longrightarrow> j < C \<Longrightarrow> mat_col f A S ! i ! j = f (A ! i ! j) (hd (S ! i))"
  by (simp add: mat_col_def shapedD)

lemma mat_col_shaped: "shaped R 1 S \<Longrightarrow> shaped R C A \<Longrightarrow> shaped R C (mat_col f A S)"
  by (rule shapedI) (simp_all add: mat_col_def shapedD)

lemma row_norms_shaped: "length A = R \<Longrightarrow> shaped R 1 (row_norms A)"
  by (rule shapedI) (simp_all add: row_norms_def)

lemma row_norms_nth: "i < length A \<Longrightarrow> hd (row_norms A ! i) = fl_sqrt (fl_sum (map (\<lambda>v. fl_mul v v) (A ! i)))"
  by (simp add: row_norms_def)

lemma hd_shaped_1: "shaped R 1 S \<Longrightarrow> finite_mat S \<Longrightarrow> i < R \<Longrightarrow> \<exists>s. hd (S ! i) = Fin s"
proof -
  assume s: "shaped R 1 S" and f: "finite_mat S" and i: "i < R"
  then have "length (S ! i) = 1" by (simp add: shapedD)
  then have "hd (S ! i) = S ! i ! 0" by (cases "S ! i") simp_all
  then show ?thesis using finite_matD[OF f s i, of 0] by simp
qed

lemma in_set_nth2:
  "shaped R C A \<Longrightarrow> i < R \<Longrightarrow> j < C \<Longrightarrow> A ! i \<in> set A \<and> A ! i ! j \<in> set (A ! i)"
  by (simp add: shapedD)

lemma masked_weights_entry:
  assumes sW: "shaped (r * n) (c * n) Wm"
    and i: "i < r * n" and j: "j < c * n"
  shows "mat_map2 fl_add (mat_map2 fl_mul (mat_map fl_exp Wm) (b_diag_mask (r, c) n))
                (mat_map2 fl_mul Wm (b_tril_mask (r, c) n)) ! i ! j =
     fl_add (fl_mul (fl_exp (Wm ! i ! j)) (if i div r = j div c then Fin 1 else Fin 0))
            (fl_mul (Wm ! i ! j) (if j div c < i div r then Fin 1 else Fin 0))"
proof -
  have n: "0 < n" using i by (auto intro: gr0I)
  have sD: "shaped (r * n) (c * n) (b_diag_mask (r, c) n)" by (rule b_diag_mask_shaped[OF n])
  have sT: "shaped (r * n) (c * n) (b_tril_mask (r, c) n)" by (rule b_tril_mask_shaped)
  have "mat_map2 fl_add (mat_map2 fl_mul (mat_map fl_exp Wm) (b_diag_mask (r, c) n))
                (mat_map2 fl_mul Wm (b_tril_mask (r, c) n)) ! i ! j =
        fl_add (fl_mul (fl_exp (Wm ! i ! j)) (b_diag_mask (r, c) n ! i ! j))
               (fl_mul (Wm ! i ! j) (b_tril_mask (r, c) n ! i ! j))"
    by (simp add: mat_map2_nth[OF _ _ i j] mat_map_nth[OF _ i j] mat_map2_shaped mat_map_shaped sW sD sT)
  then show ?thesis
    by (simp only: b_diag_mask_nth[OF i j] b_tril_mask_nth[OF i j])
qed

lemma map_Fin_the_fin: "(\<And>j. j < length xs \<Longrightarrow> \<exists>a. xs ! j = Fin a) \<Longrightarrow> xs = map Fin (map the_fin xs)"
proof (rule nth_equalityI)
  show "length xs = length (map Fin (map the_fin xs))" by simp
next
  fix i assume i: "i < length xs" and h: "\<And>j. j < length xs \<Longrightarrow> \<exists>a. xs ! j = Fin a"
  from h[OF i] obtain a where "xs ! i = Fin a" by blast
  then show "xs ! i = map Fin (map the_fin xs) ! i" using i by simp
qed

lemma gnw_zero:
  assumes bs: "block_shape self = (r, c)" and nb: "n_blocks self = n"
    and dm: "p_b_diag_mask self = b_diag_mask (r, c) n"
    and tm: "p_b_tril_mask self = b_tril_mask (r, c) n"
    and sW: "shaped (r * n) (c * n) (W self)" and fW: "finite_mat (W self)"
    and sS: "shaped (r * n) 1 (W_log_scale self)" and fS: "finite_mat (W_log_scale self)"
    and H1: "\<forall>row\<in>set (W self). \<forall>v\<in>set row. exp (the_fin v) \<le> fl_fmax"
    and H2: "\<forall>row\<in>set (W_log_scale self). \<forall>v\<in>set row. exp (the_fin v) \<le> fl_fmax"
    and H3: "\<forall>i<r * n. \<exists>j<c * n. i div r = j div c \<and> fl_fmin \<le> (exp (the_fin (W self ! i ! j)))\<^sup>2"
    and i: "i < r * n" and j: "j < c * n" and out: "i div r < j div c"
  shows "get_normalised_weights self ! i ! j = Fin 0"
proof -
  define W1 where "W1 = mat_map2 fl_add (mat_map2 fl_mul (mat_map fl_exp (W self)) (b_diag_mask (r, c) n))
                (mat_map2 fl_mul (W self) (b_tril_mask (r, c) n))"
  have n: "0 < n" and r: "0 < r" and c: "0 < c" using i j by (auto intro: gr0I)
  have sD: "shaped (r * n) (c * n) (b_diag_mask (r, c) n)" by (rule b_diag_mask_shaped[OF n])
  have sT: "shaped (r * n) (c * n) (b_tril_mask (r, c) n)" by (rule b_tril_mask_shaped)
  have sW1: "shaped (r * n) (c * n) W1"
    unfolding W1_def by (intro mat_map2_shaped mat_map_shaped sW sD sT)
  have ent: "\<exists>w. W self ! i ! j' = Fin w \<and> exp w \<le> fl_fmax \<and> W1 ! i ! j' =
       fl_add (fl_mul (fl_exp (Fin w)) (if i div r = j' div c then Fin 1 else Fin 0))
              (fl_mul (Fin w) (if j' div c < i div r then Fin 1 else Fin 0))"
    if j': "j' < c * n" for j'
  proof -
    obtain w where w: "W self ! i ! j' = Fin w" using finite_matD[OF fW sW i j'] by blast
    have "W self ! i \<in> set (W self)" "W self ! i ! j' \<in> set (W self ! i)"
      using in_set_nth2[OF sW i j'] by simp_all
    then have "exp (the_fin (W self ! i ! j')) \<le> fl_fmax" using H1 by blast
    then have "exp w \<le> fl_fmax" by (simp add: w)
    moreover have "W1 ! i ! j' =
       fl_add (fl_mul (fl_exp (Fin w)) (if i div r = j' div c then Fin 1 else Fin 0))
              (fl_mul (Fin w) (if j' div c < i div r then Fin 1 else Fin 0))"
      unfolding W1_def masked_weights_entry[OF sW i j'] w by (rule refl)
    ultimately show ?thesis using w by blast
  qed
  have z: "W1 ! i ! j = Fin 0"
  proof -
    obtain w where w: "exp w \<le> fl_fmax" "W1 ! i ! j =
       fl_add (fl_mul (fl_exp (Fin w)) (if i div r = j div c then Fin 1 else Fin 0))
              (fl_mul (Fin w) (if j div c < i div r then Fin 1 else Fin 0))"
      using ent[OF j] by blast
    have "\<not> i div r = j div c" "\<not> j div c < i div r" using out by simp_all
    then have "W1 ! i ! j = fl_add (fl_mul (fl_exp (Fin w)) (Fin 0)) (fl_mul (Fin w) (Fin 0))"
      using w(2) by (simp only: if_False)
    then show ?thesis by (simp only: masked_entry_zero[OF w(1)])
  qed
  have len: "length (W1 ! i) = c * n" using sW1 i by (simp add: shapedD)
  have nnan: "v \<noteq> NaN" if "v \<in> set (W1 ! i)" for v
  proof -
    from that obtain j' where j': "j' < c * n" "W1 ! i ! j' = v"
      using len by (auto simp: in_set_conv_nth)
    obtain w where w: "exp w \<le> fl_fmax" "W1 ! i ! j' =
       fl_add (fl_mul (fl_exp (Fin w)) (if i div r = j' div c then Fin 1 else Fin 0))
              (fl_mul (Fin w) (if j' div c < i div r then Fin 1 else Fin 0))"
      using ent[OF j'(1)] by blast
    have "W1 ! i ! j' \<noteq> NaN" unfolding w(2) by (rule entry_not_nan[OF w(1)]) simp_all
    then show ?thesis using j'(2) by simp
  qed
  obtain j0 where j0: "j0 < c * n" "i div r = j0 div c"
    "fl_fmin \<le> (exp (the_fin (W self ! i ! j0)))\<^sup>2"
    using H3 i by blast
  obtain w0 where w0: "W self ! i ! j0 = Fin w0" "exp w0 \<le> fl_fmax" "W1 ! i ! j0 =
       fl_add (fl_mul (fl_exp (Fin w0)) (if i div r = j0 div c then Fin 1 else Fin 0))
              (fl_mul (Fin w0) (if j0 div c < i div r then Fin 1 else Fin 0))"
    using ent[OF j0(1)] by blast
  have sq: "fl_fmin \<le> exp w0 * exp w0" using j0(3) by (simp add: w0(1) power2_eq_square)
  have "\<not> j0 div c < i div r" using j0(2) by simp
  then have "W1 ! i ! j0 = fl_add (fl_mul (fl_exp (Fin w0)) (Fin 1)) (fl_mul (Fin w0) (Fin 0))"
    using w0(3) j0(2) by (simp only: if_True if_False refl)
  then have d0: "W1 ! i ! j0 = Fin (exp w0)"
    by (simp only: diagonal_entry_exp[OF w0(2) exp_square_fmin[OF sq]])
  have "W1 ! i ! j0 \<in> set (W1 ! i)" using j0(1) len by simp
  then have mem: "Fin (exp w0) \<in> set (W1 ! i)" by (simp only: d0)
  have pn: "fl_positive (fl_sqrt (fl_sum (map (\<lambda>v. fl_mul v v) (W1 ! i))))"
    using nnan mem sq by (rule row_norm_positive)
  have "i < length W1" using sW1 i by (simp add: shapedD)
  then have hn: "hd (row_norms W1 ! i) = fl_sqrt (fl_sum (map (\<lambda>v. fl_mul v v) (W1 ! i)))"
    by (rule row_norms_nth)
  obtain s where s: "hd (W_log_scale self ! i) = Fin s" using hd_shaped_1[OF sS fS i] by blast
  have "length (W_log_scale self ! i) = 1" using sS i by (simp add: shapedD)
  then have hd0: "hd (W_log_scale self ! i) = W_log_scale self ! i ! 0"
    by (cases "W_log_scale self ! i") simp_all
  have "W_log_scale self ! i \<in> set (W_log_scale self)" "W_log_scale self ! i ! 0 \<in> set (W_log_scale self ! i)"
    using in_set_nth2[OF sS i, of 0] by simp_all
  then have "exp (the_fin (W_log_scale self ! i ! 0)) \<le> fl_fmax" using H2 by blast
  then have "exp s \<le> fl_fmax" using s hd0 by simp
  then obtain q where q: "fl_exp (Fin s) = Fin q" using fl_exp_bounded by blast
  have sE: "shaped (r * n) 1 (mat_map fl_exp (W_log_scale self))" by (rule mat_map_shaped[OF sS])
  have "hd (mat_map fl_exp (W_log_scale self) ! i) = fl_exp (hd (W_log_scale self ! i))"
    using sS i by (simp add: mat_map_def shapedD hd_map list.map_sel(1) length_0_conv[symmetric] del: length_0_conv fl_exp.simps)
  then have hE: "hd (mat_map fl_exp (W_log_scale self) ! i) = Fin q" by (simp only: s q)
  have sN: "shaped (r * n) 1 (row_norms W1)" using sW1 by (intro row_norms_shaped) (simp add: shapedD)
  have sC: "shaped (r * n) (c * n) (col_mat fl_mul (mat_map fl_exp (W_log_scale self)) W1)"
    by (rule col_mat_shaped[OF sE sW1])
  have "get_normalised_weights self = mat_col fl_div (col_mat fl_mul (mat_map fl_exp (W_log_scale self)) W1) (row_norms W1)"
    by (simp add: get_normalised_weights_def Let_def diag_mask_def tril_mask_def stop_gradient_def dm tm W1_def)
  then have "get_normalised_weights self ! i ! j =
        fl_div (fl_mul (hd (mat_map fl_exp (W_log_scale self) ! i)) (W1 ! i ! j)) (hd (row_norms W1 ! i))"
    by (simp add: mat_col_nth[OF sN sC i j] col_mat_nth[OF sE sW1 i j])
  also have "\<dots> = fl_div (Fin 0) (fl_sqrt (fl_sum (map (\<lambda>v. fl_mul v v) (W1 ! i))))"
    by (simp only: hE z hn fl_mul_zero)
  also have "\<dots> = Fin 0" using pn by (rule fl_div_zero_positive)
  finally show ?thesis .
qed

lemma finite_matI:
  "shaped R C A \<Longrightarrow> (\<And>i j. i < R \<Longrightarrow> j < C \<Longrightarrow> \<exists>a. A ! i ! j = Fin a) \<Longrightarrow> finite_mat A"
  unfolding finite_mat_def
proof (intro ballI)
  fix row v assume s: "shaped R C A" and h: "\<And>i j. i < R \<Longrightarrow> j < C \<Longrightarrow> \<exists>a. A ! i ! j = Fin a"
    and r: "row \<in> set A" and v: "v \<in> set row"
  from r obtain i where i: "i < length A" "A ! i = row" by (auto simp: in_set_conv_nth)
  from v obtain j where j: "j < length row" "row ! j = v" by (auto simp: in_set_conv_nth)
  have "i < R" using i s by (simp add: shapedD)
  moreover have "j < C" using j i s \<open>i < R\<close> by (auto simp: shapedD)
  ultimately obtain a where "A ! i ! j = Fin a" using h by blast
  then show "is_fin v" using i j by simp
qed

lemma BlockAutoregressiveLinear_init_fields:
  assumes "BlockAutoregressiveLinear_init g key n (r, c) = Inr l"
  shows "block_shape l = (r, c) \<and> n_blocks l = n \<and>
         p_b_diag_mask l = b_diag_mask (r, c) n \<and> p_b_tril_mask l = b_tril_mask (r, c) n \<and>
         (\<exists>k0. W l = mat_map2 fl_mul (rng_init g k0 (r * n, c * n))
                        (mat_map2 fl_add (b_tril_mask (r, c) n) (b_diag_mask (r, c) n))) \<and>
         (\<exists>k1. W_log_scale l = mat_map fl_log (rng_uniform g k1 (r * n, 1)))"
  using assms
  by (auto simp: BlockAutoregressiveLinear_init_def Let_def stop_gradient_def
      split: if_splits list.splits)

lemma fl_range_finite: "\<bar>r\<bar> \<le> fl_fmax \<Longrightarrow> \<exists>q. fl_range r = Fin q"
  by (auto simp: fl_range_def)

lemma BlockAutoregressiveLinear_init_valid:
  assumes init: "BlockAutoregressiveLinear_init g key n (r, c) = Inr l"
    and gs: "length (rng_split g key (n + 2)) = n + 2"
    and gi: "\<And>k s. shaped (fst s) (snd s) (rng_init g k s) \<and>
               (\<forall>row\<in>set (rng_init g k s). \<forall>v\<in>set row. \<exists>a. v = Fin a \<and> \<bar>a\<bar> \<le> fl_fmax)"
    and gu: "\<And>k s. shaped (fst s) (snd s) (rng_uniform g k s) \<and>
               (\<forall>row\<in>set (rng_uniform g k s). \<forall>v\<in>set row. \<exists>u>0. v = Fin u)"
  shows "shaped (r * n) (c * n) (W l) \<and> finite_mat (W l) \<and>
         shaped (r * n) 1 (W_log_scale l) \<and> finite_mat (W_log_scale l)"
proof -
  from BlockAutoregressiveLinear_init_fields[OF init] obtain k0 k1 where
    W: "W l = mat_map2 fl_mul (rng_init g k0 (r * n, c * n))
                        (mat_map2 fl_add (b_tril_mask (r, c) n) (b_diag_mask (r, c) n))"
    and S: "W_log_scale l = mat_map fl_log (rng_uniform g k1 (r * n, 1))"
    by blast
  have n: "0 < n"
  proof (rule gr0I)
    assume "n = 0"
    then have "length (butlast (butlast (rng_split g key (n + 2)))) = 0" using gs by simp
    then have "butlast (butlast (rng_split g key (n + 2))) = []" by (simp only: length_0_conv)
    then show False
      using init by (simp add: BlockAutoregressiveLinear_init_def Let_def split: if_splits)
  qed
  have sI: "shaped (r * n) (c * n) (rng_init g k0 (r * n, c * n))"
    using gi[of "(r * n, c * n)" k0] by simp
  have sM: "shaped (r * n) (c * n) (mat_map2 fl_add (b_tril_mask (r, c) n) (b_diag_mask (r, c) n))"
    by (intro mat_map2_shaped b_tril_mask_shaped b_diag_mask_shaped n)
  have sW: "shaped (r * n) (c * n) (W l)" unfolding W by (intro mat_map2_shaped sI sM)
  have fW: "finite_mat (W l)"
  proof (rule finite_matI[OF sW])
    fix i j assume i: "i < r * n" and j: "j < c * n"
    have "rng_init g k0 (r * n, c * n) ! i \<in> set (rng_init g k0 (r * n, c * n))"
      "rng_init g k0 (r * n, c * n) ! i ! j \<in> set (rng_init g k0 (r * n, c * n) ! i)"
      using in_set_nth2[OF sI i j] by simp_all
    then obtain a where a: "rng_init g k0 (r * n, c * n) ! i ! j = Fin a" "\<bar>a\<bar> \<le> fl_fmax"
      using gi[of "(r * n, c * n)" k0] by blast
    have "\<exists>q. fl_range a = Fin q" using a(2) by (rule fl_range_finite)
    then show "\<exists>a. W l ! i ! j = Fin a"
      unfolding W
      by (simp add: mat_map2_nth[OF _ _ i j] sI sM b_tril_mask_shaped b_diag_mask_shaped[OF n] a(1)
          b_tril_mask_nth[OF i j] b_diag_mask_nth[OF i j] fl_range_zero)
  qed
  have sU: "shaped (r * n) 1 (rng_uniform g k1 (r * n, 1))"
    using gu[of "(r * n, 1)" k1] by simp
  have sS: "shaped (r * n) 1 (W_log_scale l)" unfolding S by (rule mat_map_shaped[OF sU])
  have fS: "finite_mat (W_log_scale l)"
  proof (rule finite_matI[OF sS])
    fix i j assume i: "i < r * n" and j: "j < (1::nat)"
    have "rng_uniform g k1 (r * n, 1) ! i \<in> set (rng_uniform g k1 (r * n, 1))"
      using sU i by (simp add: shapedD)
    moreover have "rng_uniform g k1 (r * n, 1) ! i ! j \<in> set (rng_uniform g k1 (r * n, 1) ! i)"
      using sU i j by (simp add: shapedD)
    ultimately obtain u where u: "0 < u" "rng_uniform g k1 (r * n, 1) ! i ! j = Fin u"
      using gu[of "(r * n, 1)" k1] by blast
    have "mat_map fl_log (rng_uniform g k1 (r * n, 1)) ! i ! j = fl_log (Fin u)"
      by (simp only: mat_map_nth[OF sU i j] u(2))
    then show "\<exists>a. W_log_scale l ! i ! j = Fin a"
      unfolding S using u(1) by simp
  qed
  show ?thesis using sW fW sS fS by blast
qed

lemma two_block_masks:
  "b_diag_mask (Suc 0, Suc 0) 2 = [[Fin 1, Fin 0], [Fin 0, Fin 1]]"
  "b_tril_mask (Suc 0, Suc 0) 2 = [[Fin 0, Fin 0], [Fin 1, Fin 0]]"
  by (simp_all add: b_diag_mask_def b_tril_mask_def ones_def zeros_def set_slice_def where_idxs_def
     numeral_2_eq_2)

lemma exp_nat_ge: "2 ^ n \<le> exp (real n)"
proof -
  have "(2::real) \<le> exp 1" using exp_ge_add_one_self[of 1] by simp
  then have "(2::real) ^ n \<le> exp 1 ^ n" by (intro power_mono) simp_all
  also have "\<dots> = exp (real n)" using exp_of_nat_mult[of n "1::real"] by simp
  finally show ?thesis .
qed

lemma exp_nat_le: "exp (real n) \<le> 3 ^ n"
proof -
  have "exp 1 ^ n \<le> (3::real) ^ n" using exp_le by (intro power_mono) simp_all
  moreover have "exp 1 ^ n = exp (real n)" using exp_of_nat_mult[of n "1::real"] by simp
  ultimately show ?thesis by simp
qed

lemma exp_200: "fl_fmax < exp 200"
proof -
  have "fl_fmax < 2 ^ 200" unfolding fl_fmax_def by simp
  also have "\<dots> \<le> exp (real 200)" by (rule exp_nat_ge)
  finally show ?thesis by simp
qed

lemma exp_70: "fl_fmin \<le> exp (- 70)" "exp (- 70) \<le> fl_fmax" "exp (- 70) * exp (- 70) < fl_fmin"
proof -
  have "exp (real 70) \<le> 3 ^ 70" by (rule exp_nat_le)
  also have "\<dots> \<le> (2::real) ^ 126" by simp
  finally have "exp (70::real) \<le> 2 ^ 126" by simp
  then have "1 / 2 ^ 126 \<le> 1 / exp (70::real)" by (intro divide_left_mono) simp_all
  then show "fl_fmin \<le> exp (- 70)" unfolding fl_fmin_def by (simp add: exp_minus inverse_eq_divide)
  have "exp (- 70 :: real) \<le> 1" by simp
  then show "exp (- 70) \<le> fl_fmax" using fl_fmax_ge_one by linarith
  have "(2::real) ^ 126 < 2 ^ 140" by simp
  also have "\<dots> \<le> exp (real 140)" by (rule exp_nat_ge)
  finally have "(2::real) ^ 126 < exp 140" by simp
  then have "1 / exp (140::real) < 1 / 2 ^ 126" by (intro divide_strict_left_mono) simp_all
  moreover have "exp (- 70) * exp (- 70) = 1 / exp (140::real)"
    by (simp add: exp_add[symmetric] exp_minus inverse_eq_divide)
  ultimately show "exp (- 70) * exp (- 70) < fl_fmin" unfolding fl_fmin_def by simp
qed

lemma exp_small: "exp 1 \<le> fl_fmax" "exp 5 \<le> fl_fmax"
proof -
  have "exp (real 5) \<le> 3 ^ 5" by (rule exp_nat_le)
  also have "\<dots> \<le> fl_fmax" unfolding fl_fmax_def by simp
  finally show "exp 5 \<le> fl_fmax" by simp
  have "exp (real 1) \<le> 3 ^ 1" by (rule exp_nat_le)
  also have "\<dots> \<le> fl_fmax" unfolding fl_fmax_def by simp
  finally show "exp 1 \<le> fl_fmax" by simp
qed

lemma overflow_layer_nan: "get_normalised_weights overflow_layer ! 0 ! Suc 0 = NaN"
proof -
  have e: "fl_range (exp 200) = PInf" by (rule fl_range_over[OF exp_200])
  show ?thesis
    by (simp add: get_normalised_weights_def overflow_layer_def two_block_masks
        diag_mask_def tril_mask_def stop_gradient_def mat_map_def mat_map2_def col_mat_def
        mat_col_def row_norms_def fl_sum_def Let_def e fl_range_zero fl_range_one)
qed

lemma underflow_layer_nan: "get_normalised_weights underflow_layer ! 0 ! Suc 0 = NaN"
proof -
  have e: "fl_range (exp (- 70)) = Fin (exp (- 70))"
    using exp_70(1,2) by (intro fl_range_exact) simp_all
  have "\<bar>exp (- 70) * exp (- 70 :: real)\<bar> < fl_fmin" using exp_70(3) by (simp only: abs_mult abs_exp_cancel)
  then have s: "fl_range (exp (- 70) * exp (- 70)) = Fin 0" by (rule fl_range_flush)
  show ?thesis
    by (simp add: get_normalised_weights_def underflow_layer_def two_block_masks
        diag_mask_def tril_mask_def stop_gradient_def mat_map_def mat_map2_def col_mat_def
        mat_col_def row_norms_def fl_sum_def Let_def e s fl_range_zero fl_range_one)
qed

text \<open>
  Claim C4 says that for every finite raw parameter setting of a layer the normalised
  weight matrix of \<open>get_normalised_weights\<close> is exactly zero at every entry outside the
  diagonal blocks and the blocks below them. It fails for two finite settings of a layer
  of two blocks of shape \<open>(1, 1)\<close>, at the masked position \<open>(0, 1)\<close>. When the raw
  weight there is \<open>200\<close>, its exponential overflows to \<open>inf\<close> and \<open>inf * 0\<close> is NaN. When
  the raw weight of the diagonal entry of the row is \<open>-70\<close>, the square of its
  exponential underflows, the norm of the row is \<open>0\<close>, and the entry is \<open>0 / 0\<close>, NaN.
\<close>

theorem get_normalised_weights_overflow_and_underflow:
  "W overflow_layer = [[Fin 0, Fin 200], [Fin 1, Fin 0]] \<and>
   W_log_scale overflow_layer = [[Fin 0], [Fin 0]] \<and>
   get_normalised_weights overflow_layer ! 0 ! 1 = NaN \<and>
   W underflow_layer = [[Fin (- 70), Fin 0], [Fin 1, Fin 0]] \<and>
   W_log_scale underflow_layer = [[Fin 0], [Fin 0]] \<and>
   get_normalised_weights underflow_layer ! 0 ! 1 = NaN"
  using overflow_layer_nan underflow_layer_nan
  by (simp add: overflow_layer_def underflow_layer_def)

text \<open>
  Claim C4, amended. Let a layer have \<open>n\<close> blocks of shape \<open>(r, c)\<close>, the masks of the
  constructor, and finite raw weight and raw log-scale of the constructor's shapes. If
  the exponential of no raw weight and of no raw log-scale overflows, and every row has
  an entry in its diagonal block the square of whose exponential does not underflow,
  then the weight matrix of \<open>get_normalised_weights\<close> is zero at every position whose
  block row is less than its block column, that is outside the diagonal blocks and the
  blocks below them. The call of the layer computes its weight matrix by
  \<open>get_normalised_weights\<close> and leaves the layer as it is, so this holds at every
  forward pass, whatever the input. The layers of the constructor have these masks, and
  a finite raw weight and log-scale when the initialiser returns numbers of the format
  (lemmas \<open>BlockAutoregressiveLinear_init_fields\<close> and
  \<open>BlockAutoregressiveLinear_init_valid\<close>).
\<close>

theorem get_normalised_weights_masked:
  assumes "block_shape self = (r, c)" and "n_blocks self = n"
    and "p_b_diag_mask self = b_diag_mask (r, c) n"
    and "p_b_tril_mask self = b_tril_mask (r, c) n"
    and "shaped (r * n) (c * n) (W self)" and "finite_mat (W self)"
    and "shaped (r * n) 1 (W_log_scale self)" and "finite_mat (W_log_scale self)"
    and "\<forall>row\<in>set (W self). \<forall>v\<in>set row. exp (the_fin v) \<le> fl_fmax"
    and "\<forall>row\<in>set (W_log_scale self). \<forall>v\<in>set row. exp (the_fin v) \<le> fl_fmax"
    and "\<forall>i<r * n. \<exists>j<c * n. i div r = j div c \<and> fl_fmin \<le> (exp (the_fin (W self ! i ! j)))\<^sup>2"
  shows "\<forall>i<r * n. \<forall>j<c * n. i div r < j div c \<longrightarrow> get_normalised_weights self ! i ! j = Fin 0"
  using gnw_zero[OF assms] by blast

theorem get_normalised_weights_masked_witness:
  "block_shape example_layer = (1, 1) \<and> n_blocks example_layer = 2 \<and>
   p_b_diag_mask example_layer = b_diag_mask (1, 1) 2 \<and>
   p_b_tril_mask example_layer = b_tril_mask (1, 1) 2 \<and>
   shaped (1 * 2) (1 * 2) (W example_layer) \<and> finite_mat (W example_layer) \<and>
   shaped (1 * 2) 1 (W_log_scale example_layer) \<and> finite_mat (W_log_scale example_layer) \<and>
   W example_layer ! 0 ! 1 = Fin 5 \<and>
   (0::nat) < 1 * 2 \<and> (1::nat) < 1 * 2 \<and> (0::nat) div 1 < 1 div 1 \<and>
   get_normalised_weights example_layer ! 0 ! 1 = Fin 0"
proof -
  have h: "block_shape example_layer = (1, 1)" "n_blocks example_layer = 2"
    "p_b_diag_mask example_layer = b_diag_mask (1, 1) 2"
    "p_b_tril_mask example_layer = b_tril_mask (1, 1) 2"
    "shaped (1 * 2) (1 * 2) (W example_layer)" "finite_mat (W example_layer)"
    "shaped (1 * 2) 1 (W_log_scale example_layer)" "finite_mat (W_log_scale example_layer)"
    by (simp_all add: example_layer_def shaped_def finite_mat_def)
  have h1: "\<forall>row\<in>set (W example_layer). \<forall>v\<in>set row. exp (the_fin v) \<le> fl_fmax"
    using exp_small fl_fmax_ge_one by (simp add: example_layer_def)
  have h2: "\<forall>row\<in>set (W_log_scale example_layer). \<forall>v\<in>set row. exp (the_fin v) \<le> fl_fmax"
    using fl_fmax_ge_one by (simp add: example_layer_def)
  have h3: "\<forall>i<1 * 2. \<exists>j<1 * 2. i div 1 = j div 1 \<and>
              fl_fmin \<le> (exp (the_fin (W example_layer ! i ! j)))\<^sup>2"
  proof (intro allI impI)
    fix i :: nat assume "i < 1 * 2"
    then have "i = 0 \<or> i = 1" by auto
    then have "fl_fmin \<le> (exp (the_fin (W example_layer ! i ! i)))\<^sup>2"
      using fl_fmin_le_one by (auto simp: example_layer_def)
    then show "\<exists>j<1 * 2. i div 1 = j div 1 \<and>
              fl_fmin \<le> (exp (the_fin (W example_layer ! i ! j)))\<^sup>2"
      using \<open>i < 1 * 2\<close> by (intro exI[of _ i]) simp
  qed
  have "get_normalised_weights example_layer ! 0 ! 1 = Fin 0"
    using get_normalised_weights_masked[OF h h1 h2 h3] by simp
  then show ?thesis using h by (simp add: example_layer_def)
qed

section \<open>The block autoregressive network\<close>

lemma collect_loop_pass:
  "collect_loop ls y acc =
     (case pass_layers ls y of Inl e \<Rightarrow> Inl e | Inr (z, lds) \<Rightarrow> Inr (z, acc @ lds))"
  by (induction ls arbitrary: y acc) (auto split: sum.splits prod.splits)

lemma transform_loop_pass: "transform_loop ls y = map_sum id fst (pass_layers ls y)"
  by (induction ls arbitrary: y) (auto split: sum.splits prod.splits)

lemma pass_layers_length: "pass_layers ls y = Inr (z, lds) \<Longrightarrow> length lds = length ls"
  by (induction ls arbitrary: y z lds) (auto split: sum.splits prod.splits)

lemma logdet_loop_snoc:
  "logdet_loop (lds @ [ld]) a =
     (case logdet_loop lds a of Inl e \<Rightarrow> Inl e | Inr t \<Rightarrow> logmatmulexp3 t ld)"
  by (induction lds arbitrary: a) (auto split: sum.splits)

lemma logdet_loop_rev:
  "logdet_loop (rev lds) a =
     foldr (\<lambda>ld acc. case acc of Inl e \<Rightarrow> Inl e | Inr t \<Rightarrow> logmatmulexp3 t ld) lds (Inr a)"
  by (induction lds) (simp_all add: logdet_loop_snoc)

lemma example_masks:
  "b_diag_mask (Suc 0, Suc 0) (Suc 0) = [[Fin 1]]" "b_tril_mask (Suc 0, Suc 0) (Suc 0) = [[Fin 0]]"
  "where_idxs [[Fin 1]] = [(0, 0)]"
  by (simp_all add: b_diag_mask_def b_tril_mask_def ones_def zeros_def set_slice_def where_idxs_def)

lemma example_unit_layer_call:
  assumes "fl_range a = Fin a"
  shows "BlockAutoregressiveLinear_call example_unit_layer [Fin a] = Inr ([Fin a], [[[Fin 0]]])"
  by (simp add: BlockAutoregressiveLinear_call_def example_unit_layer_def example_masks
      get_normalised_weights_def diag_mask_def tril_mask_def diag_mask_idxs_def stop_gradient_def
      mat_map_def mat_map2_def col_mat_def mat_col_def row_norms_def fl_sum_def matvec_def
      reshape3_def reshape2_def Let_def fl_range_one fl_range_zero assms)

lemma logmatmulexp3_unit: "logmatmulexp3 [[[Fin a]]] [[[Fin b]]] = Inr [[[Fin (a + b)]]]"
  by (simp add: logmatmulexp3_def logmatmulexp_def columns_def stop_gradient_def
      mat_map_def mat_col_def mat_row_def matmul_def fl_sum_def fl_sub_def Let_def fl_range_one)

text \<open>
  Claim C1. For a network with at least one layer (the constructor builds at least
  three) and every input, \<open>transform_and_log_abs_det_jacobian\<close> passes the input through
  the layers in order, collects their tensors in forward order, folds them from right
  to left with the log-domain product starting from the last one, and returns the final
  output with the sum of all entries of the folded tensor; \<open>transform\<close> passes the input
  through the same layers, so when the first returns an output, the second returns it
  too.
\<close>

theorem transform_and_log_abs_det_jacobian_correct:
  assumes "layers self \<noteq> []"
  shows "transform_and_log_abs_det_jacobian self x =
           (case pass_layers (layers self) x of
              Inl e \<Rightarrow> Inl e
            | Inr (y, lds) \<Rightarrow>
                (case fold_right_to_left lds of
                   Inl e \<Rightarrow> Inl e
                 | Inr t \<Rightarrow> Inr (y, tensor_sum t))) \<and>
         transform self x = map_sum id fst (pass_layers (layers self) x) \<and>
         (\<forall>y logdet. transform_and_log_abs_det_jacobian self x = Inr (y, logdet) \<longrightarrow>
            transform self x = Inr y)"
proof -
  have ne: "lds \<noteq> []" if "pass_layers (layers self) x = Inr (z, lds)" for z lds
    using pass_layers_length[OF that] assms by auto
  have 1: "transform_and_log_abs_det_jacobian self x =
           (case pass_layers (layers self) x of
              Inl e \<Rightarrow> Inl e
            | Inr (y, lds) \<Rightarrow>
                (case fold_right_to_left lds of
                   Inl e \<Rightarrow> Inl e
                 | Inr t \<Rightarrow> Inr (y, tensor_sum t)))"
    using ne
    by (auto simp: transform_and_log_abs_det_jacobian_def collect_loop_pass logdet_loop_rev
        fold_right_to_left_def split: sum.splits prod.splits)
  have 2: "transform self x = map_sum id fst (pass_layers (layers self) x)"
    by (simp add: transform_def transform_loop_pass)
  have 3: "transform self x = Inr y"
    if "transform_and_log_abs_det_jacobian self x = Inr (y, logdet)" for y logdet
    using that unfolding 1 2 by (auto split: sum.splits prod.splits)
  show ?thesis using 1 2 3 by blast
qed

lemma tanh_one_bounds: "3 / 5 \<le> tanh (1::real)" "tanh (1::real) < 1"
proof -
  define e where "e = exp (- 2 * (1::real))"
  have e: "0 < e" by (simp add: e_def)
  have "(2::real) ^ 2 \<le> exp (real 2)" by (rule exp_nat_ge)
  then have "(4::real) \<le> exp 2" by simp
  then have "1 / exp (2::real) \<le> 1 / 4" by (intro divide_left_mono) simp_all
  then have e4: "e \<le> 1 / 4" by (simp add: e_def exp_minus inverse_eq_divide)
  have t: "tanh (1::real) = (1 - e) / (1 + e)" unfolding e_def by (rule tanh_real_altdef)
  have "3 / 5 * (1 + e) \<le> 1 - e" using e4 by simp
  then show "3 / 5 \<le> tanh (1::real)" unfolding t using e by (simp add: pos_le_divide_eq)
  show "tanh (1::real) < 1" using tanh_real_bounds[of 1] by simp
qed

lemma fl_fmin_small: "fl_fmin \<le> 9 / 25"
  by (simp add: fl_fmin_def)

lemma fl_range_tanh_one: "fl_range (tanh 1) = Fin (tanh 1)"
proof (rule fl_range_exact)
  have "fl_fmin \<le> tanh (1::real)" using tanh_one_bounds(1) fl_fmin_small by linarith
  moreover have "0 \<le> tanh (1::real)" using tanh_one_bounds(1) by linarith
  ultimately show "fl_fmin \<le> \<bar>tanh (1::real)\<bar>" by simp
  show "\<bar>tanh (1::real)\<bar> \<le> fl_fmax" using tanh_one_bounds fl_fmax_ge_one by simp
qed

lemma log_dtanh_one: "log_dtanh (Fin 1) = Fin (ln (1 - (tanh 1)\<^sup>2))"
proof -
  define L where "L = ln (1 - (tanh (1::real))\<^sup>2)"
  have t2: "(tanh (1::real))\<^sup>2 < 1" using tanh_real_bounds[of "1::real"] by (simp add: abs_square_less_1 abs_if)
  have "9 / 25 \<le> (tanh (1::real))\<^sup>2"
    using power_mono[OF tanh_one_bounds(1), of 2] by (simp add: power2_eq_square)
  moreover have "L \<le> (1 - (tanh (1::real))\<^sup>2) - 1" unfolding L_def using t2 by (intro ln_le_minus_one) simp
  ultimately have up: "L \<le> - (9 / 25)" by linarith
  have lo: "- (2 * \<bar>1::real\<bar>) \<le> L" unfolding L_def by (rule ln_dtanh_bounds(2))
  have "fl_fmin \<le> \<bar>L\<bar>" using up fl_fmin_small by linarith
  moreover have "(2::real) \<le> fl_fmax" unfolding fl_fmax_def by simp
  then have "\<bar>L\<bar> \<le> fl_fmax" using up lo by simp
  ultimately have "fl_range L = Fin L" by (rule fl_range_exact)
  then show ?thesis by (simp add: L_def)
qed

lemma TanhBNAF_call_unit:
  "TanhBNAF_call (Suc 0) [Fin 1] = Inr ([Fin (tanh 1)], [[[Fin (ln (1 - (tanh 1)\<^sup>2))]]])"
proof -
  have "(2::real) \<le> fl_fmax" unfolding fl_fmax_def by simp
  then have h: "\<forall>v\<in>set [Fin 1]. v \<noteq> NInf \<and> (\<forall>a. v = Fin a \<longrightarrow> 2 * \<bar>a\<bar> \<le> fl_fmax)" by simp
  have "TanhBNAF_call (Suc 0) [Fin 1] =
           Inr (map fl_tanh [Fin 1],
                map (\<lambda>b. map (\<lambda>i. map (\<lambda>j. if i = j then log_dtanh ([Fin 1] ! (b * 1 + i)) else NInf)
                     [0..<1]) [0..<1]) [0..<Suc 0])"
    by (rule TanhBNAF_call_general[OF _ _ h]) simp_all
  then show ?thesis by (simp add: log_dtanh_one del: log_dtanh.simps)
qed

lemma example_network_pass:
  "pass_layers (layers example_network) [Fin 1] =
     Inr ([Fin (tanh 1)], [[[[Fin 0]]], [[[Fin (ln (1 - (tanh 1)\<^sup>2))]]], [[[Fin 0]]]])"
  by (simp add: example_network_def example_unit_layer_call[OF fl_range_one]
      example_unit_layer_call[OF fl_range_tanh_one] TanhBNAF_call_unit)

theorem transform_and_log_abs_det_jacobian_correct_witness:
  "layers example_network \<noteq> [] \<and>
   transform_and_log_abs_det_jacobian example_network [Fin 1] =
     Inr ([Fin (tanh 1)], Fin (ln (1 - (tanh 1)\<^sup>2))) \<and>
   transform example_network [Fin 1] = Inr [Fin (tanh 1)]"
proof -
  have ne: "layers example_network \<noteq> []" by (simp add: example_network_def)
  show ?thesis
    using transform_and_log_abs_det_jacobian_correct[OF ne, of "[Fin 1]"] ne
    by (simp add: example_network_pass fold_right_to_left_def logmatmulexp3_unit
        tensor_sum_def fl_sum_def)
qed

lemma BlockAutoregressiveLinear_init_ok:
  assumes "0 < n" and "length (rng_split g key (n + 2)) = n + 2"
  shows "\<exists>l. BlockAutoregressiveLinear_init g key n bs = Inr l"
proof -
  define keys where "keys = rng_split g key (n + 2)"
  have "length (butlast (butlast keys)) = n" using assms(2) by (simp add: keys_def)
  then have "butlast (butlast keys) \<noteq> []"
    using assms(1) by (metis length_0_conv less_numeral_extra(3))
  then obtain k0 ks where k: "butlast (butlast keys) = k0 # ks"
    by (auto simp: neq_Nil_conv)
  have "\<not> length keys < 2" using assms(2) by (simp add: keys_def)
  then show ?thesis
    unfolding BlockAutoregressiveLinear_init_def Let_def keys_def[symmetric] k
    by (simp only: list.case if_False) blast
qed

lemma length_2E: "length xs = 2 \<Longrightarrow> \<exists>a b. xs = [a, b]"
  by (metis One_nat_def Suc_1 length_0_conv length_Suc_conv)

lemma build_layers_ok:
  assumes split: "\<forall>k m. length (rng_split g k m) = m" and d: "0 < d"
  shows "\<exists>ls. build_layers g key d sizes acc = Inr ls \<and> length ls = length acc + 2 * length sizes"
proof (induction sizes arbitrary: key acc)
  case Nil
  show ?case by simp
next
  case (Cons bs sizes)
  have "length (rng_split g key 2) = 2" using split by blast
  then obtain key' subkey where ks: "rng_split g key 2 = [key', subkey]"
    using length_2E by blast
  have sk: "length (rng_split g subkey (d + 2)) = d + 2" using split by blast
  obtain l where l: "BlockAutoregressiveLinear_init g subkey d bs = Inr l"
    using BlockAutoregressiveLinear_init_ok[OF d sk, of bs] by (rule exE)
  obtain ls where ls: "build_layers g key' d sizes (acc @ [Linear l, Activation d]) = Inr ls"
    "length ls = length (acc @ [Linear l, Activation d]) + 2 * length sizes"
    using Cons.IH by blast
  have "build_layers g key d (bs # sizes) acc = Inr ls"
    by (simp only: build_layers.simps ks l list.case sum.case ls(1))
  moreover have "length ls = length acc + 2 * length (bs # sizes)" using ls(2) by simp
  ultimately show ?case by blast
qed

lemma BlockAutoregressiveNetwork_init_ok:
  assumes split: "\<forall>k m. length (rng_split g k m) = m" and d: "0 < d"
  shows "map_sum id (\<lambda>net. (n_layers net, length (layers net)))
           (BlockAutoregressiveNetwork_init g key d nl bs) = Inr (nl, 2 * nat (nl - 2) + 3)"
proof -
  let ?sizes = "[(fst bs, 1)] @ replicate (nat (nl - 2)) bs @ [(1, snd bs)]"
  obtain ls where ls: "build_layers g key d ?sizes [] = Inr ls" "length ls = length ([]::layer list) + 2 * length ?sizes"
    using build_layers_ok[OF split d] by blast
  then show ?thesis by (simp add: BlockAutoregressiveNetwork_init_def)
qed

lemma BlockAutoregressiveNetwork_init_small:
  assumes "nl < 2"
  shows "BlockAutoregressiveNetwork_init g key d nl bs =
         map_sum id (\<lambda>net. net\<lparr>n_layers := nl\<rparr>) (BlockAutoregressiveNetwork_init g key d 2 bs)"
  using assms by (simp add: BlockAutoregressiveNetwork_init_def split: sum.splits)

lemma example_rng_split: "\<forall>k m. length (rng_split example_rng k m) = m"
  by (simp add: example_rng_def)

text \<open>
  Claim C9 says that constructing the network with \<open>n_layers < 2\<close> fails. The constructor
  has no check of \<open>n_layers\<close>: the list of intermediate block shapes is empty for every
  \<open>n_layers \<le> 2\<close>, and the network of \<open>n_layers = 2\<close> is built.
\<close>

theorem BlockAutoregressiveNetwork_init_n_layers_1:
  "\<not> isl (BlockAutoregressiveNetwork_init example_rng 0 1 1 (1, 1))"
  using BlockAutoregressiveNetwork_init_ok[OF example_rng_split, of 1 0 1 "(1, 1)"]
  by (cases "BlockAutoregressiveNetwork_init example_rng 0 1 1 (1, 1)") simp_all

text \<open>
  Claim C9, amended. Constructing the network with \<open>n_layers < 2\<close> does not fail on that
  account: it is the construction with \<open>n_layers = 2\<close>, except that the given number is
  recorded; and when the dimension is positive and every split gives the number of keys
  asked for, it returns a network of three layers (entry layer, activation, exit layer).
\<close>

theorem BlockAutoregressiveNetwork_init_small_n_layers:
  assumes "nl < 2" and "0 < d" and "\<forall>k m. length (rng_split g k m) = m"
  shows "BlockAutoregressiveNetwork_init g key d nl bs =
           map_sum id (\<lambda>net. net\<lparr>n_layers := nl\<rparr>) (BlockAutoregressiveNetwork_init g key d 2 bs) \<and>
         map_sum id (\<lambda>net. (n_layers net, length (layers net)))
           (BlockAutoregressiveNetwork_init g key d nl bs) = Inr (nl, 3)"
  using BlockAutoregressiveNetwork_init_small[OF assms(1)]
    BlockAutoregressiveNetwork_init_ok[OF assms(3) assms(2), of key nl bs] assms(1)
  by simp

theorem BlockAutoregressiveNetwork_init_small_n_layers_witness:
  "(0::int) < 2 \<and> (0::nat) < 4 \<and> (\<forall>k m. length (rng_split example_rng k m) = m) \<and>
   BlockAutoregressiveNetwork_init example_rng 7 4 0 (8, 8) =
     map_sum id (\<lambda>net. net\<lparr>n_layers := 0\<rparr>) (BlockAutoregressiveNetwork_init example_rng 7 4 2 (8, 8)) \<and>
   map_sum id (\<lambda>net. (n_layers net, length (layers net)))
     (BlockAutoregressiveNetwork_init example_rng 7 4 0 (8, 8)) = Inr (0, 3)"
proof -
  have h: "(0::int) < 2" "(0::nat) < 4" by simp_all
  show ?thesis
    using BlockAutoregressiveNetwork_init_small_n_layers[OF h example_rng_split, of 7 "(8, 8)"]
      h example_rng_split
    by blast
qed

text \<open>
  Claim C2 says that calling \<open>inverse\<close> raises a not-implemented condition. The method
  builds the \<open>NotImplementedError\<close> and returns it: every call returns normally, with the
  exception object as its value, and nothing is raised.
\<close>

theorem inverse_bnaf_returns_exception_object:
  "inverse_bnaf args =
     Inr (ExceptionObject
       (NotImplementedError ''This transform would require numerical methods for inversion..'')) \<and>
   \<not> isl (inverse_bnaf args)"
  by (simp add: inverse_bnaf_def)

section \<open>Chains and transformed distributions\<close>

lemma fl_add_commute: "fl_add a b = fl_add b a"
  by (cases a; cases b) simp_all

lemma fl_add_assoc: "fl_add (fl_add a b) c = fl_add a (fl_add b c)"
  by (cases a; cases b; cases c) simp_all

lemma fl_add_zero: "fl_add a (Fin 0) = a" "fl_add (Fin 0) a = a"
  by (cases a; simp)+

lemma transform_chain_append:
  "transform_chain (xs @ ys) x c =
     (case transform_chain xs x c of Inl e \<Rightarrow> Inl e | Inr y \<Rightarrow> transform_chain ys y c)"
  by (induction xs arbitrary: x) (auto split: sum.splits)

lemma inverse_and_log_det_chain_append:
  "inverse_and_log_det_chain (xs @ ys) y c =
     (case inverse_and_log_det_chain ys y c of
        Inl e \<Rightarrow> Inl e
      | Inr (z, l2) \<Rightarrow>
          (case inverse_and_log_det_chain xs z c of
             Inl e \<Rightarrow> Inl e
           | Inr (x, l1) \<Rightarrow> Inr (x, fl_add l2 l1)))"
  by (induction xs) (auto split: sum.splits prod.splits simp: fl_add_zero fl_add_assoc)

lemma flatten_transform:
  "transform_chain (flatten b) x c = transform_bij b x c"
proof (induction b arbitrary: x)
  case (Leaf m)
  show ?case by (simp split: sum.splits)
next
  case (Chain bs)
  then have "transform_chain (concat (map flatten bs)) x c = transform_chain bs x c" for x
  proof (induction bs arbitrary: x)
    case Nil
    show ?case by simp
  next
    case (Cons b bs)
    then show ?case by (auto simp: transform_chain_append split: sum.splits)
  qed
  then show ?case by simp
qed

lemma flatten_inverse:
  "inverse_and_log_det_chain (flatten b) y c = inverse_and_log_det b y c"
proof (induction b arbitrary: y)
  case (Leaf m)
  show ?case by (simp add: fl_add_zero split: sum.splits prod.splits)
next
  case (Chain bs)
  then have "inverse_and_log_det_chain (concat (map flatten bs)) y c = inverse_and_log_det_chain bs y c" for y
  proof (induction bs arbitrary: y)
    case Nil
    show ?case by simp
  next
    case (Cons b bs)
    then show ?case
      by (auto simp: inverse_and_log_det_chain_append fl_add_zero split: sum.splits prod.splits)
  qed
  then show ?case by simp
qed

lemma merge_chains_transform: "transform_bij (merge_chains b) x c = transform_bij b x c"
proof (cases b)
  case (Leaf m)
  then show ?thesis by simp
next
  case (Chain bs)
  have "transform_chain (flatten (Chain bs)) x c = transform_bij (Chain bs) x c"
    by (rule flatten_transform)
  then show ?thesis using Chain by simp
qed

lemma merge_chains_inverse: "inverse_and_log_det (merge_chains b) y c = inverse_and_log_det b y c"
proof (cases b)
  case (Leaf m)
  then show ?thesis by simp
next
  case (Chain bs)
  have "inverse_and_log_det_chain (flatten (Chain bs)) y c = inverse_and_log_det (Chain bs) y c"
    by (rule flatten_inverse)
  then show ?thesis using Chain by simp
qed

lemma fl_add_left_commute: "fl_add a (fl_add b c) = fl_add b (fl_add a c)"
  by (metis fl_add_assoc fl_add_commute)

lemma collect_bijections_wrap:
  "collect_bijections d acc = (b0, bijs) \<Longrightarrow>
     fold (\<lambda>b dd. Transformed dd b) (rev bijs) b0 = fold (\<lambda>b dd. Transformed dd b) (rev acc) d \<and>
     (\<exists>m. b0 = Base m) \<and> (\<exists>rest. bijs = acc @ rest) \<and> shape b0 = shape d"
proof (induction d arbitrary: acc)
  case (Base m)
  then show ?case by auto
next
  case (Transformed d b)
  from Transformed.prems have c: "collect_bijections d (acc @ [b]) = (b0, bijs)" by simp
  from Transformed.IH[OF c] show ?case by auto
qed

lemma chain_sample:
  "u_sample (Transformed d0 (Chain xs)) k c = u_sample (fold (\<lambda>b dd. Transformed dd b) xs d0) k c"
proof (induction xs arbitrary: d0)
  case Nil
  show ?case by (simp split: sum.splits)
next
  case (Cons b xs)
  have "u_sample (Transformed d0 (Chain (b # xs))) k c = u_sample (Transformed (Transformed d0 b) (Chain xs)) k c"
    by (simp split: sum.splits)
  then show ?case using Cons.IH[of "Transformed d0 b"] by simp
qed

lemma chain_log_prob:
  "u_log_prob (Transformed d0 (Chain xs)) x c = u_log_prob (fold (\<lambda>b dd. Transformed dd b) xs d0) x c"
proof (induction xs arbitrary: d0)
  case Nil
  show ?case by (simp add: fl_add_zero split: sum.splits)
next
  case (Cons b xs)
  have "u_log_prob (Transformed d0 (Chain (b # xs))) x c = u_log_prob (Transformed (Transformed d0 b) (Chain xs)) x c"
    by (simp add: fl_add_assoc fl_add_commute fl_add_left_commute split: sum.splits prod.splits)
  then show ?case using Cons.IH[of "Transformed d0 b"] by simp
qed

lemma u_sample_merge_chains:
  "u_sample (Transformed d0 (merge_chains X)) = u_sample (Transformed d0 X)"
  by (intro ext) (simp add: merge_chains_transform split: sum.splits)

lemma u_log_prob_merge_chains:
  "u_log_prob (Transformed d0 (merge_chains X)) = u_log_prob (Transformed d0 X)"
  by (intro ext) (simp add: merge_chains_inverse split: sum.splits)

text \<open>
  Claim C7. For a transformed distribution whose base is a transformed distribution,
  \<open>merge_transforms\<close> returns a transformed distribution whose base is not a transformed
  one and whose bijection is the merged chain of the collected bijections, the outer
  bijection last; its \<open>_sample\<close> and \<open>_log_prob\<close>, and with them the public \<open>sample\<close> and
  \<open>log_prob\<close>, are those of the nested distribution, for every key, input and condition.
\<close>

theorem merge_transforms_correct:
  "\<exists>m bs.
     let nested = Transformed (Transformed d b) bj;
         merged = Transformed (Base m) (merge_chains (Chain (bs @ [b, bj])))
     in merge_transforms nested = Inr merged \<and>
        u_sample merged = u_sample nested \<and>
        u_log_prob merged = u_log_prob nested \<and>
        sample g merged = sample g nested \<and>
        log_prob shape_of merged = log_prob shape_of nested"
proof -
  obtain b0 bijs where c: "collect_bijections d [bj, b] = (b0, bijs)"
    by (cases "collect_bijections d [bj, b]") auto
  from collect_bijections_wrap[OF c] obtain m rest where
    w: "fold (\<lambda>b dd. Transformed dd b) (rev bijs) b0 = Transformed (Transformed d b) bj"
    and b0: "b0 = Base m" and bijs: "bijs = [bj, b] @ rest" and sh: "shape b0 = shape d"
    by auto
  let ?nested = "Transformed (Transformed d b) bj"
  let ?merged = "Transformed (Base m) (merge_chains (Chain (rev rest @ [b, bj])))"
  have r: "rev bijs = rev rest @ [b, bj]" by (simp add: bijs)
  have 1: "merge_transforms ?nested = Inr ?merged" by (simp add: c b0 r)
  have 2: "u_sample ?merged = u_sample ?nested"
    unfolding u_sample_merge_chains
    by (intro ext) (simp only: chain_sample r[symmetric] b0[symmetric] w)
  have 3: "u_log_prob ?merged = u_log_prob ?nested"
    unfolding u_log_prob_merge_chains
    by (intro ext) (simp only: chain_log_prob r[symmetric] b0[symmetric] w)
  have 4: "sample g ?merged = sample g ?nested"
    by (intro ext) (simp only: sample_def 2)
  have "shape ?merged = shape ?nested" using sh b0 by simp
  then have 5: "log_prob shape_of ?merged = log_prob shape_of ?nested"
    by (intro ext) (simp only: log_prob_def 3)
  show ?thesis
    unfolding Let_def using 1 2 3 4 5 by blast
qed

section \<open>Distributions\<close>

lemma with_inverse_transform_and_log_det:
  "transform_and_log_det (with_inverse f g b) x c = transform_and_log_det b x c"
proof (induction b arbitrary: x)
  case (Leaf m)
  show ?case by simp
next
  case (Chain bs)
  then have "transform_and_log_det_chain (map (with_inverse f g) bs) x c acc =
             transform_and_log_det_chain bs x c acc" for x acc
  proof (induction bs arbitrary: x acc)
    case Nil
    show ?case by simp
  next
    case (Cons b bs)
    then show ?case by (auto split: sum.splits prod.splits)
  qed
  then show ?case by simp
qed

text \<open>
  Claim C8. For every key and condition, \<open>_sample_and_log_prob\<close> of a transformed
  distribution draws the sample and its log-probability jointly from the base, applies
  \<open>transform_and_log_det\<close> of the bijection and returns the transformed sample with the
  base log-probability minus the forward log-determinant; the result is the same
  whatever the inverse methods of the bijection are, so the inverse is not used. And
  \<open>_log_prob\<close> applies \<open>inverse_and_log_det\<close> and returns the base log-probability of the
  inverse image plus the inverse log-determinant. An exception of a step ends the call.
\<close>

theorem transformed_sample_and_log_prob:
  "u_sample_and_log_prob (Transformed base_dist bj) key condition =
     (case u_sample_and_log_prob base_dist key condition of
        Inl e \<Rightarrow> Inl e
      | Inr (z, log_p_base) \<Rightarrow>
          (case transform_and_log_det bj z condition of
             Inl e \<Rightarrow> Inl e
           | Inr (y, fwd_logdet) \<Rightarrow> Inr (y, fl_sub log_p_base fwd_logdet))) \<and>
   u_sample_and_log_prob (Transformed base_dist (with_inverse f g bj)) key condition =
     u_sample_and_log_prob (Transformed base_dist bj) key condition \<and>
   u_log_prob (Transformed base_dist bj) x condition =
     (case inverse_and_log_det bj x condition of
        Inl e \<Rightarrow> Inl e
      | Inr (z, inv_logdet) \<Rightarrow>
          (case u_log_prob base_dist z condition of
             Inl e \<Rightarrow> Inl e
           | Inr p \<Rightarrow> Inr (fl_add p inv_logdet)))"
  by (simp add: with_inverse_transform_and_log_det cong: sum.case_cong prod.case_cong)

lemma log_prob_not_nan:
  assumes "log_prob shape_of self xs condition = Inr lps"
  shows "\<forall>lp\<in>set lps. \<not> isnan lp"
  using assms by (auto simp: log_prob_def split: sum.splits if_splits)

text \<open>
  Claim C3 says that \<open>sample\<close>, \<open>log_prob\<close> and \<open>sample_and_log_prob\<close> all map a
  log-probability that is not a number to \<open>-inf\<close>. \<open>log_prob\<close> does (lemma
  \<open>log_prob_not_nan\<close>) and \<open>sample\<close> returns no log-probability; \<open>sample_and_log_prob\<close>
  returns the log-probabilities of \<open>_sample_and_log_prob\<close> as they are. For the
  distribution \<open>nan_distribution\<close> it returns a sample with a log-probability that is not
  a number, where \<open>log_prob\<close> at that sample returns \<open>-inf\<close>.
\<close>

theorem sample_and_log_prob_returns_nan:
  "sample_and_log_prob example_rng nan_distribution 0 1 None = Inr [(1, NaN)] \<and>
   log_prob (\<lambda>x. []) nan_distribution [1] None = Inr [NInf]"
  by (simp add: sample_and_log_prob_def log_prob_def vectorize_def get_sample_keys_def
      check_shapes_def example_rng_def nan_distribution_def nan_bijection_def example_base_def
      fl_sub_def)

text \<open>
  Claim C10. For every distribution, condition and \<open>stop_gradient\<close>, the constructor of
  \<open>SpecializeCondition\<close> raises: the exception of \<^verbatim>\<open>arraylike_to_array\<close> if it raises,
  else the attribute error of reading \<open>self.dist\<close>, which no instance has before the
  assignment that follows the check. No call of the constructor returns an instance.
\<close>

theorem SpecializeCondition_new_raises:
  "SpecializeCondition_new env dist0 condition stop_grad =
     Inl (case arraylike_to_array env condition of
            Inl e \<Rightarrow> e
          | Inr cond \<Rightarrow> AttributeError ''dist'')"
  by (simp add: SpecializeCondition_new_def SpecializeCondition_init_def getattr_def
      SpecializeCondition_class_def split: sum.splits)

end
